theory Spec2Isabelle
  imports Complex_Main
begin

section \<open>The chapter catalog\<close>

text \<open>
  The story map of \<^verbatim>\<open>src/App.tsx\<close>. Text that is not ASCII is written as its UTF-8 bytes.
  Numbers are the reals that the doubles of JavaScript denote; where the component computes
  with them, in \<^verbatim>\<open>spinGlobe\<close>, every operation rounds (see the section on JavaScript
  numbers).
\<close>

record View =
  latitude :: real
  longitude :: real
  zoom :: real

text \<open>The field \<^verbatim>\<open>id\<close> of the source is \<open>id_l\<close> here (\<open>id\<close> is the identity of HOL).\<close>

record LayerDef =
  id_l :: string
  name :: string
  url :: "string option"
  opacity :: "real option"
  description :: string
  view :: View

definition LAYERS :: "LayerDef list" where
  "LAYERS = [
    \<lparr> id_l = ''intro-globe'',
      name = ''Full Earth View'',
      url = None,
      opacity = None,
      description = ''The story begins with the entire Earth '' @ [CHR 0xE2, CHR 0x80, CHR 0x94]
        @ '' zoom in to explore specific phenomena.'',
      view = \<lparr> latitude = 0, longitude = 0, zoom = 2 \<rparr> \<rparr>,
    \<lparr> id_l = ''total-methane'',
      name = ''Methane (EPA total)'',
      url = Some ''https://earth.gov/ghgcenter/api/raster/searches/92ef8a307eaf0dd5c1403e04b414b712/tiles/WebMercatorQuad/{z}/{x}/{y}?assets=total-methane&rescale=0,20&colormap_name=epa-ghgi-ch4'',
      opacity = Some 0.7,
      description = ''Global methane emissions from human and natural sources ''
        @ [CHR 0xE2, CHR 0x80, CHR 0x94] @ '' focusing on the United States.'',
      view = \<lparr> latitude = 37.5, longitude = -95, zoom = 2.8 \<rparr> \<rparr>,
    \<lparr> id_l = ''no2-monthly'',
      name = ''Nitrogen dioxide (NO'' @ [CHR 0xE2, CHR 0x82, CHR 0x82] @ '')'',
      url = Some ''https://openveda.cloud/api/raster/searches/54f6090e54cf744b4db5b037be979254/tiles/WebMercatorQuad/{z}/{x}/{y}?assets=cog_default&bidx=1&colormap_name=rdbu_r&rescale=0%2C15000000000000000'',
      opacity = Some 0.6,
      description = ''Satellite-derived NO'' @ [CHR 0xE2, CHR 0x82, CHR 0x82]
        @ '' showing air pollution hotspots '' @ [CHR 0xE2, CHR 0x80, CHR 0x94]
        @ '' centered on New York.'',
      view = \<lparr> latitude = 40.7128, longitude = -74.006, zoom = 6.5 \<rparr> \<rparr>,
    \<lparr> id_l = ''days-above-90f'',
      name = ''Days above 90'' @ [CHR 0xC2, CHR 0xB0] @ ''F (CMIP6 SSP245)'',
      url = Some ''https://openveda.cloud/api/raster/searches/05508f8b6bee59b2007bb1a338f64001/tiles/WebMercatorQuad/{z}/{x}/{y}?assets=tmax_above_90&colormap_name=wistia&rescale=0%2C365'',
      opacity = Some 0.45,
      description = ''Projected annual count of days exceeding 90'' @ [CHR 0xC2, CHR 0xB0]
        @ ''F under a mid-range scenario.'',
      view = \<lparr> latitude = 25, longitude = -100, zoom = 3.2 \<rparr> \<rparr>,
    \<lparr> id_l = ''geoglam'',
      name = ''Crop conditions (GEOGLAM)'',
      url = Some ''https://openveda.cloud/api/raster/searches/b8b84be08e9be485e882321a29bcc36e/tiles/WebMercatorQuad/{z}/{x}/{y}?assets=cog_default&colormap=%7B%221%22%3A+%5B120%2C+120%2C+120%5D%2C+%222%22%3A+%5B130%2C+65%2C+0%5D%2C+%223%22%3A+%5B66%2C+207%2C+56%5D%2C+%224%22%3A+%5B245%2C+239%2C+0%5D%2C+%225%22%3A+%5B241%2C+89%2C+32%5D%2C+%226%22%3A+%5B168%2C+0%2C+0%5D%2C+%227%22%3A+%5B0%2C+143%2C+201%5D%7D&resampling=nearest'',
      opacity = Some 0.5,
      description = ''Global crop monitoring data showing strong and weak agricultural performance.'',
      view = \<lparr> latitude = 10, longitude = 30, zoom = 2 \<rparr> \<rparr>,
    \<lparr> id_l = ''grdi-v1'',
      name = ''Global deprivation index (GRDI)'',
      url = Some ''https://openveda.cloud/api/raster/searches/2e402f857dd5363f04809920c76793b2/tiles/WebMercatorQuad/{z}/{x}/{y}?assets=cog_default&colormap_name=viridis'',
      opacity = Some 0.4,
      description = ''Mapping global deprivation '' @ [CHR 0xE2, CHR 0x80, CHR 0x94]
        @ '' focusing on India'' @ [CHR 0xE2, CHR 0x80, CHR 0x99]
        @ ''s socioeconomic diversity.'',
      view = \<lparr> latitude = 21, longitude = 78, zoom = 3.8 \<rparr> \<rparr>,
    \<lparr> id_l = ''poi-showcase'',
      name = ''Global Points of Interest'',
      url = None,
      opacity = None,
      description = ''Cities rendered as glowing points with labels.'',
      view = \<lparr> latitude = 20, longitude = 0, zoom = 1.8 \<rparr> \<rparr>,
    \<lparr> id_l = ''finale'',
      name = ''Back to the Globe'',
      url = None,
      opacity = None,
      description = ''Returning to a full-Earth perspective for free exploration.'',
      view = \<lparr> latitude = 0, longitude = 0, zoom = 1.3 \<rparr> \<rparr>
  ]"

record Feature =
  feature_name :: string
  coordinates :: "real \<times> real"

definition POI_GEOJSON :: "Feature list" where
  "POI_GEOJSON = [
    \<lparr> feature_name = ''New York City'', coordinates = (-74.006, 40.7128) \<rparr>,
    \<lparr> feature_name = ''Delhi'', coordinates = (77.209, 28.6139) \<rparr>,
    \<lparr> feature_name = ''Cairo'', coordinates = (31.2357, 30.0444) \<rparr>,
    \<lparr> feature_name = ''S'' @ [CHR 0xC3, CHR 0xA3] @ ''o Paulo'', coordinates = (-46.6339, -23.5505) \<rparr>,
    \<lparr> feature_name = ''Tokyo'', coordinates = (139.6917, 35.6895) \<rparr>
  ]"

section \<open>JavaScript numbers\<close>

text \<open>
  A JavaScript number is an IEEE 754 binary64 value, and every arithmetic operation returns
  the exact result rounded to the nearest such value, ties to the one with an even
  significand. The numbers are modelled as the reals they denote and the operations as the
  exact operation followed by \<open>rnd\<close>, the rounding to 53 significant bits. The exponent is
  not bounded in the model: it agrees with binary64 wherever the rounded result is zero or
  has a magnitude from \<open>2\<^sup>-\<^sup>1\<^sup>0\<^sup>2\<^sup>2\<close> up to the largest finite value, which covers
  every operation of this component on finite inputs. Infinities, NaN and the sign of zero
  are not modelled. The literals that enter the arithmetic of \<^verbatim>\<open>spinGlobe\<close> (360, 120, 5, 3
  and 0) are doubles exactly. A decimal literal that the component only stores and passes
  on (a view, an opacity, a speed) is written as the decimal itself, which names the double
  nearest to it.
\<close>

definition pow2 :: "int \<Rightarrow> real" where
  "pow2 e = (if 0 \<le> e then 2 ^ nat e else 1 / 2 ^ nat (- e))"

definition round_even :: "real \<Rightarrow> int" where
  "round_even y =
     (let f = \<lfloor>y\<rfloor>; r = y - of_int f
      in if r < 1 / 2 then f else if 1 / 2 < r then f + 1 else if even f then f else f + 1)"

definition exponent :: "real \<Rightarrow> int" where
  "exponent x = \<lfloor>log 2 \<bar>x\<bar>\<rfloor>"

definition ulp :: "real \<Rightarrow> real" where
  "ulp x = pow2 (exponent x - 52)"

definition rnd :: "real \<Rightarrow> real" where
  "rnd x = sgn x * (of_int (round_even (\<bar>x\<bar> / ulp x)) * ulp x)"

definition is_double :: "real \<Rightarrow> bool" where
  "is_double x \<longleftrightarrow> rnd x = x"

definition fsub :: "real \<Rightarrow> real \<Rightarrow> real" where
  "fsub a b = rnd (a - b)"

definition fmul :: "real \<Rightarrow> real \<Rightarrow> real" where
  "fmul a b = rnd (a * b)"

definition fdiv :: "real \<Rightarrow> real \<Rightarrow> real" where
  "fdiv a b = rnd (a / b)"

section \<open>The map engine as the component uses it\<close>

text \<open>
  The map is a third-party widget. The component reads its zoom and centre, registers and
  removes listeners, and issues \<^verbatim>\<open>stop\<close>, \<^verbatim>\<open>easeTo\<close> and \<^verbatim>\<open>flyTo\<close>. The model of the
  instance keeps what the component can read, the listener registry and the sequence of
  camera calls it has received. What the engine does with a call (animating, firing events,
  moving the camera) is the environment's part: it arrives as events, see \<open>event\<close> below.
\<close>

datatype map_event = mousedown | mouseup | dragend | pitchend | rotateend | moveend

text \<open>
  The listeners are the closures \<^verbatim>\<open>pause\<close>, \<^verbatim>\<open>resume\<close> and \<^verbatim>\<open>spinGlobe\<close> that one run of the
  rotation effect creates; the number names the run, so closures of different runs are
  different listeners, as function objects are in JavaScript.
\<close>

datatype listener = Pause nat | Resume nat | SpinGlobe nat

record LngLat =
  lng :: real
  lat :: real

record EaseToOptions =
  ease_center :: LngLat
  ease_duration :: real
  ease_easing :: "real \<Rightarrow> real"
  ease_essential :: bool

record FlyToOptions =
  fly_center :: "real \<times> real"
  fly_zoom :: real
  fly_pitch :: real
  fly_bearing :: real
  fly_speed :: real
  fly_curve :: real
  fly_easing :: "real \<Rightarrow> real"

datatype call = Stop | EaseTo EaseToOptions | FlyTo FlyToOptions

record Mapbox =
  map_zoom :: real
  map_center :: LngLat
  listeners :: "(map_event \<times> listener) list"
  calls :: "call list"

definition getZoom :: "Mapbox \<Rightarrow> real" where
  "getZoom m = map_zoom m"

definition getCenter :: "Mapbox \<Rightarrow> LngLat" where
  "getCenter m = map_center m"

definition stop :: "Mapbox \<Rightarrow> Mapbox" where
  "stop m = m\<lparr>calls := calls m @ [Stop]\<rparr>"

definition easeTo :: "EaseToOptions \<Rightarrow> Mapbox \<Rightarrow> Mapbox" where
  "easeTo options m = m\<lparr>calls := calls m @ [EaseTo options]\<rparr>"

definition flyTo :: "FlyToOptions \<Rightarrow> Mapbox \<Rightarrow> Mapbox" where
  "flyTo options m = m\<lparr>calls := calls m @ [FlyTo options]\<rparr>"

text \<open>
  \<^verbatim>\<open>on\<close> adds a listener for an event type unless that same function is already registered
  for it; \<^verbatim>\<open>off\<close> removes its first registration.
\<close>

definition on :: "map_event \<Rightarrow> listener \<Rightarrow> Mapbox \<Rightarrow> Mapbox" where
  "on ev h m =
     m\<lparr>listeners := (if (ev, h) \<in> set (listeners m) then listeners m
                      else listeners m @ [(ev, h)])\<rparr>"

definition off :: "map_event \<Rightarrow> listener \<Rightarrow> Mapbox \<Rightarrow> Mapbox" where
  "off ev h m = m\<lparr>listeners := remove1 (ev, h) (listeners m)\<rparr>"

section \<open>The component \<^verbatim>\<open>StoryMap\<close>\<close>

text \<open>
  The state of the component: the five \<^verbatim>\<open>useState\<close> cells, the ref to the map instance
  (\<open>None\<close> is \<^verbatim>\<open>null\<close>), and what the rotation effect leaves behind between events: the
  variable \<^verbatim>\<open>userInteracting\<close> of each run's closure, the number of runs so far, and the
  cleanup function the last run returned (\<open>Some g\<close>: the cleanup of run \<open>g\<close>; \<open>None\<close>: the run
  returned nothing).
\<close>

record StoryMap =
  activeLayer :: LayerDef
  visibleId :: "string option"
  freeMode :: bool
  isMobile :: bool
  mapRef :: "Mapbox option"
  mapLoaded :: bool
  userInteracting :: "nat \<Rightarrow> bool"
  runs :: nat
  cleanup :: "nat option"

datatype direction = up | down

record StepData =
  id_d :: string

record 'entry StepEnterEvent =
  data :: StepData
  direction :: direction
  entry :: 'entry
  index :: nat

subsection \<open>Event handlers\<close>

definition handleStepEnter :: "'entry StepEnterEvent \<Rightarrow> StoryMap \<Rightarrow> StoryMap" where
  "handleStepEnter e w =
     (if freeMode w then w
      else case find (\<lambda>l. id_l l = id_d (data e)) LAYERS of
             Some next \<Rightarrow> w\<lparr>activeLayer := next, visibleId := Some (id_d (data e))\<rparr>
           | None \<Rightarrow> w)"

text \<open>Both toggle buttons carry the same handler, \<^verbatim>\<open>setFreeMode((v) => !v)\<close>.\<close>

definition toggleFreeMode :: "StoryMap \<Rightarrow> StoryMap" where
  "toggleFreeMode w = w\<lparr>freeMode := \<not> freeMode w\<rparr>"

text \<open>
  The chapter picker is rendered in free mode only, one element per catalog entry, keyed by
  the entry's id; a click on the element of \<open>l\<close> runs \<^verbatim>\<open>setActiveLayer(l)\<close>. Selecting a
  chapter id is a click on the element with that key, if one is rendered.
\<close>

definition picker_onClick :: "LayerDef \<Rightarrow> StoryMap \<Rightarrow> StoryMap" where
  "picker_onClick l w = w\<lparr>activeLayer := l\<rparr>"

definition picker :: "StoryMap \<Rightarrow> (string \<times> (StoryMap \<Rightarrow> StoryMap)) list" where
  "picker w = (if freeMode w then map (\<lambda>l. (id_l l, picker_onClick l)) LAYERS else [])"

definition selectChapter :: "string \<Rightarrow> StoryMap \<Rightarrow> StoryMap" where
  "selectChapter chapterId w =
     (case map_of (picker w) chapterId of Some onClick \<Rightarrow> onClick w | None \<Rightarrow> w)"

subsection \<open>The rotation effect\<close>

definition secondsPerRevolution :: real where
  "secondsPerRevolution = 120"

definition maxSpinZoom :: real where
  "maxSpinZoom = 5"

definition slowSpinZoom :: real where
  "slowSpinZoom = 3"

definition spinEnabled :: bool where
  "spinEnabled = True"

definition distancePerSecond :: "real \<Rightarrow> real" where
  "distancePerSecond z =
     (let d = fdiv 360 secondsPerRevolution
      in if z > slowSpinZoom
         then (let zoomFactor = fdiv (fsub maxSpinZoom z) (fsub maxSpinZoom slowSpinZoom)
               in fmul d (max 0 zoomFactor))
         else d)"

text \<open>\<^verbatim>\<open>spinGlobe\<close>, given the current value of its closure's \<^verbatim>\<open>userInteracting\<close>.\<close>

definition spinGlobe :: "bool \<Rightarrow> Mapbox \<Rightarrow> Mapbox" where
  "spinGlobe interacting m =
     (if \<not> spinEnabled \<or> interacting then m
      else let z = getZoom m
           in if z \<ge> maxSpinZoom then m
              else let center = getCenter m;
                       center = center\<lparr>lng := fsub (lng center) (distancePerSecond z)\<rparr>
                   in easeTo \<lparr> ease_center = center, ease_duration = 1000,
                               ease_easing = (\<lambda>n. n), ease_essential = True \<rparr> m)"

text \<open>
  The closures call the map they captured, which is the instance in the ref. A listener is
  called with the state of the component at that moment.
\<close>

definition with_map :: "(Mapbox \<Rightarrow> Mapbox) \<Rightarrow> StoryMap \<Rightarrow> StoryMap" where
  "with_map f w = (case mapRef w of None \<Rightarrow> w | Some m \<Rightarrow> w\<lparr>mapRef := Some (f m)\<rparr>)"

fun call_listener :: "listener \<Rightarrow> StoryMap \<Rightarrow> StoryMap" where
  "call_listener (Pause g) w =
     with_map stop (w\<lparr>userInteracting := (userInteracting w)(g := True)\<rparr>)"
| "call_listener (Resume g) w =
     (let w = w\<lparr>userInteracting := (userInteracting w)(g := False)\<rparr>
      in with_map (spinGlobe (userInteracting w g)) w)"
| "call_listener (SpinGlobe g) w =
     with_map (spinGlobe (userInteracting w g)) w"

text \<open>
  The body of the effect with the dependencies \<^verbatim>\<open>[mapLoaded, activeLayer.id]\<close>. A run that
  reaches the intro chapter's branch is run number \<open>g\<close>: it creates its own
  \<^verbatim>\<open>userInteracting\<close>, initially false, registers its three closures, spins once and
  returns its cleanup. The other branches return nothing.
\<close>

definition rotation_effect :: "StoryMap \<Rightarrow> StoryMap" where
  "rotation_effect w =
     (if \<not> mapLoaded w then w\<lparr>cleanup := None\<rparr>
      else case mapRef w of
             None \<Rightarrow> w\<lparr>cleanup := None\<rparr>
           | Some m \<Rightarrow>
               if id_l (activeLayer w) \<noteq> ''intro-globe''
               then w\<lparr>mapRef := Some (stop m), cleanup := None\<rparr>
               else let g = runs w;
                        m = on mousedown (Pause g) m;
                        m = on mouseup (Resume g) m;
                        m = on dragend (Resume g) m;
                        m = on pitchend (Resume g) m;
                        m = on rotateend (Resume g) m;
                        m = on moveend (SpinGlobe g) m;
                        m = spinGlobe False m
                    in w\<lparr>mapRef := Some m,
                         userInteracting := (userInteracting w)(g := False),
                         runs := Suc g,
                         cleanup := Some g\<rparr>)"

text \<open>The cleanup that the last run returned, if it returned one.\<close>

definition run_cleanup :: "StoryMap \<Rightarrow> StoryMap" where
  "run_cleanup w =
     (case cleanup w of
        None \<Rightarrow> w
      | Some g \<Rightarrow>
          with_map (\<lambda>m.
            let m = off mousedown (Pause g) m;
                m = off mouseup (Resume g) m;
                m = off dragend (Resume g) m;
                m = off pitchend (Resume g) m;
                m = off rotateend (Resume g) m;
                m = off moveend (SpinGlobe g) m
            in stop m) (w\<lparr>cleanup := None\<rparr>))"

subsection \<open>The camera effect\<close>

text \<open>
  The options of \<^verbatim>\<open>flyTo\<close>. The easing \<^verbatim>\<open>(t) => 1 - Math.pow(1 - t, 3)\<close> is handed to the
  engine as a function; the component never applies it, and the language leaves the
  precision of \<^verbatim>\<open>Math.pow\<close> to the implementation. The model records the function over
  the reals that the expression denotes.
\<close>

definition flyTo_options :: "LayerDef \<Rightarrow> FlyToOptions" where
  "flyTo_options l =
     \<lparr> fly_center = (longitude (view l), latitude (view l)),
       fly_zoom = zoom (view l),
       fly_pitch = 20,
       fly_bearing = 0,
       fly_speed = 0.6,
       fly_curve = 1.4,
       fly_easing = (\<lambda>t. 1 - (1 - t) ^ 3) \<rparr>"

definition flyTo_effect :: "StoryMap \<Rightarrow> StoryMap" where
  "flyTo_effect w =
     (case mapRef w of
        None \<Rightarrow> w
      | Some m \<Rightarrow> w\<lparr>mapRef := Some (flyTo (flyTo_options (activeLayer w)) m)\<rparr>)"

subsection \<open>Rendering of the map's children\<close>

text \<open>
  What the component renders inside the map: the raster source with its tiles and opacity,
  the country mask with the country code it spotlights, the points of interest with their
  data. The paint constants of the layers are fixed and left out.
\<close>

datatype element =
    Raster "string list" real
  | CountryMask string
  | POIs "Feature list"

text \<open>
  \<^verbatim>\<open>activeLayer.url && ...\<close>: an undefined and an empty url are both falsy;
  \<^verbatim>\<open>activeLayer.opacity ?? 0.6\<close> replaces only an undefined opacity.
\<close>

definition renderRaster :: "StoryMap \<Rightarrow> element option" where
  "renderRaster w =
     (case url (activeLayer w) of
        None \<Rightarrow> None
      | Some u \<Rightarrow>
          if u = [] then None
          else Some (Raster [u] (case opacity (activeLayer w) of None \<Rightarrow> 0.6 | Some p \<Rightarrow> p)))"

definition renderCountryMask :: "StoryMap \<Rightarrow> element option" where
  "renderCountryMask w =
     (if freeMode w then None
      else if id_l (activeLayer w) \<notin> set [''total-methane'', ''grdi-v1''] then None
      else let code = (if id_l (activeLayer w) = ''total-methane'' then ''USA'' else ''IND'')
           in Some (CountryMask code))"

definition renderPOIs :: "StoryMap \<Rightarrow> element option" where
  "renderPOIs w =
     (if id_l (activeLayer w) \<noteq> ''poi-showcase'' then None else Some (POIs POI_GEOJSON))"

definition map_children :: "StoryMap \<Rightarrow> element option list" where
  "map_children w = [renderRaster w, renderCountryMask w, renderPOIs w]"

subsection \<open>Mounting, commits and events\<close>

definition initial :: StoryMap where
  "initial =
     \<lparr> activeLayer = LAYERS ! 0, visibleId = None, freeMode = False, isMobile = False,
       mapRef = None, mapLoaded = False, userInteracting = (\<lambda>_. False), runs = 0,
       cleanup = None \<rparr>"

text \<open>The first effect; \<open>mobile\<close> is the outcome of the test of the user agent.\<close>

definition mobile_effect :: "bool \<Rightarrow> StoryMap \<Rightarrow> StoryMap" where
  "mobile_effect mobile w =
     (let w = w\<lparr>isMobile := mobile\<rparr> in if mobile then w\<lparr>freeMode := True\<rparr> else w)"

text \<open>On mount every effect runs once, in the order of the source.\<close>

definition mount :: "bool \<Rightarrow> StoryMap" where
  "mount mobile = flyTo_effect (rotation_effect (mobile_effect mobile initial))"

text \<open>
  After a handler has turned the state \<open>w\<close> into \<open>w'\<close>, React runs the effects whose
  dependencies changed: first the cleanup of such an effect's previous run, then the effects
  in the order of the source. The rotation effect depends on \<^verbatim>\<open>[mapLoaded, activeLayer.id]\<close>,
  the camera effect on \<^verbatim>\<open>[activeLayer]\<close>. React compares \<^verbatim>\<open>activeLayer\<close> by reference; every
  value it takes is an entry of \<open>LAYERS\<close>, and the entries differ pairwise, so equality of the
  records is the same comparison.
\<close>

definition commit :: "StoryMap \<Rightarrow> StoryMap \<Rightarrow> StoryMap" where
  "commit w w' =
     (let w1 = (if mapLoaded w' \<noteq> mapLoaded w \<or> id_l (activeLayer w') \<noteq> id_l (activeLayer w)
                then rotation_effect (run_cleanup w') else w')
      in if activeLayer w' \<noteq> activeLayer w then flyTo_effect w1 else w1)"

text \<open>
  The map instance is created with the initial view state of the first render. The ref
  callback and \<^verbatim>\<open>onLoad\<close> both store that one instance in \<^verbatim>\<open>mapRef.current\<close>.
\<close>

definition new_map :: Mapbox where
  "new_map =
     \<lparr> map_zoom = zoom (view (activeLayer initial)),
       map_center = \<lparr> lng = longitude (view (activeLayer initial)),
                      lat = latitude (view (activeLayer initial)) \<rparr>,
       listeners = [], calls = [] \<rparr>"

definition ref_callback :: "StoryMap \<Rightarrow> StoryMap" where
  "ref_callback w = (case mapRef w of None \<Rightarrow> w\<lparr>mapRef := Some new_map\<rparr> | Some m \<Rightarrow> w)"

definition onLoad :: "StoryMap \<Rightarrow> StoryMap" where
  "onLoad w = (ref_callback w)\<lparr>mapLoaded := True\<rparr>"

text \<open>The engine fires an event: every listener registered for it is called, in order.\<close>

definition fire :: "map_event \<Rightarrow> StoryMap \<Rightarrow> StoryMap" where
  "fire ev w =
     (case mapRef w of
        None \<Rightarrow> w
      | Some m \<Rightarrow>
          foldl (\<lambda>w h. call_listener h w) w
            (map snd (filter (\<lambda>(e, h). e = ev) (listeners m))))"

text \<open>
  What can happen to the mounted component: a scroll step is entered, a toggle button or a
  picker element is clicked, the map instance appears, has loaded, fires one of the events
  the component listens to, or has its camera moved (by an animation or by the user).
  The scroll panel is rendered outside free mode and off mobile devices only, the toggle
  buttons off mobile devices only.
\<close>

datatype 'entry event =
    StepEnter "'entry StepEnterEvent"
  | ToggleFreeMode
  | SelectChapter string
  | MapCreated
  | MapLoad
  | MapFire map_event
  | CameraMoved real LngLat

fun step :: "'entry event \<Rightarrow> StoryMap \<Rightarrow> StoryMap" where
  "step (StepEnter e) w =
     (if \<not> freeMode w \<and> \<not> isMobile w then commit w (handleStepEnter e w) else w)"
| "step ToggleFreeMode w = (if \<not> isMobile w then commit w (toggleFreeMode w) else w)"
| "step (SelectChapter chapterId) w = commit w (selectChapter chapterId w)"
| "step MapCreated w = ref_callback w"
| "step MapLoad w = commit w (onLoad w)"
| "step (MapFire ev) w = fire ev w"
| "step (CameraMoved z c) w = with_map (\<lambda>m. m\<lparr>map_zoom := z, map_center := c\<rparr>) w"

fun run :: "'entry event list \<Rightarrow> StoryMap \<Rightarrow> StoryMap" where
  "run [] w = w"
| "run (ev # evs) w = run evs (step ev w)"

text \<open>The camera calls the map has received so far, and those added between two states.\<close>

definition calls_of :: "StoryMap \<Rightarrow> call list" where
  "calls_of w = (case mapRef w of None \<Rightarrow> [] | Some m \<Rightarrow> calls m)"

definition new_calls :: "StoryMap \<Rightarrow> StoryMap \<Rightarrow> call list" where
  "new_calls w w' = drop (length (calls_of w)) (calls_of w')"

definition listeners_of :: "StoryMap \<Rightarrow> (map_event \<times> listener) list" where
  "listeners_of w = (case mapRef w of None \<Rightarrow> [] | Some m \<Rightarrow> listeners m)"

fun is_FlyTo :: "call \<Rightarrow> bool" where
  "is_FlyTo (FlyTo options) = True"
| "is_FlyTo c = False"

text \<open>The animated camera moves among the calls: every \<^verbatim>\<open>easeTo\<close> and \<^verbatim>\<open>flyTo\<close>.\<close>

fun is_move :: "call \<Rightarrow> bool" where
  "is_move Stop = False"
| "is_move c = True"

text \<open>The registrations that run \<open>g\<close> of the rotation effect makes, in the order of the source.\<close>

definition rotation_listeners :: "nat \<Rightarrow> (map_event \<times> listener) list" where
  "rotation_listeners g =
     [(mousedown, Pause g), (mouseup, Resume g), (dragend, Resume g), (pitchend, Resume g),
      (rotateend, Resume g), (moveend, SpinGlobe g)]"

text \<open>
  What holds between events: the active layer is a catalog entry, a loaded map has its
  instance in the ref, and the registry of the map holds the listeners of the last run of
  the rotation effect if that run returned a cleanup, and nothing otherwise; a cleanup is
  pending exactly while the map is loaded and the intro chapter is active.
\<close>

definition consistent :: "StoryMap \<Rightarrow> bool" where
  "consistent w =
     (activeLayer w \<in> set LAYERS \<and> (mapLoaded w \<longrightarrow> mapRef w \<noteq> None) \<and>
      (case cleanup w of
         None \<Rightarrow> listeners_of w = [] \<and>
                 \<not> (mapLoaded w \<and> id_l (activeLayer w) = ''intro-globe'')
       | Some g \<Rightarrow> listeners_of w = rotation_listeners g \<and>
                   mapLoaded w \<and> id_l (activeLayer w) = ''intro-globe''))"

text \<open>
  The state of the rotation loop: it exists while a cleanup is pending, and it is paused
  while the variable \<^verbatim>\<open>userInteracting\<close> of the current run is set. \<open>rotation_step m\<close>
  are the calls that \<^verbatim>\<open>spinGlobe\<close> issues on the map \<open>m\<close> when the user is not interacting,
  \<open>spin_calls w\<close> those it issues on the map of \<open>w\<close>.
\<close>

definition paused :: "StoryMap \<Rightarrow> bool" where
  "paused w = (case cleanup w of None \<Rightarrow> False | Some g \<Rightarrow> userInteracting w g)"

definition rotation_step :: "Mapbox \<Rightarrow> call list" where
  "rotation_step m = drop (length (calls m)) (calls (spinGlobe False m))"

definition spin_calls :: "StoryMap \<Rightarrow> call list" where
  "spin_calls w = (case mapRef w of None \<Rightarrow> [] | Some m \<Rightarrow> rotation_step m)"

section \<open>Facts about the catalog\<close>

lemma LAYERS_ids:
  "map id_l LAYERS =
     [''intro-globe'', ''total-methane'', ''no2-monthly'', ''days-above-90f'', ''geoglam'',
      ''grdi-v1'', ''poi-showcase'', ''finale'']"
  by (simp add: LAYERS_def)

lemma LAYERS_views:
  "map view LAYERS =
     [\<lparr>latitude = 0, longitude = 0, zoom = 2\<rparr>,
      \<lparr>latitude = 37.5, longitude = -95, zoom = 2.8\<rparr>,
      \<lparr>latitude = 40.7128, longitude = -74.006, zoom = 6.5\<rparr>,
      \<lparr>latitude = 25, longitude = -100, zoom = 3.2\<rparr>,
      \<lparr>latitude = 10, longitude = 30, zoom = 2\<rparr>,
      \<lparr>latitude = 21, longitude = 78, zoom = 3.8\<rparr>,
      \<lparr>latitude = 20, longitude = 0, zoom = 1.8\<rparr>,
      \<lparr>latitude = 0, longitude = 0, zoom = 1.3\<rparr>]"
  by (simp add: LAYERS_def)

lemma LAYERS_url_defined:
  "map (\<lambda>l. url l = None) LAYERS = [True, False, False, False, False, False, True, True]"
  by (simp add: LAYERS_def)

lemma LAYERS_url_nonempty: "l \<in> set LAYERS \<Longrightarrow> url l \<noteq> Some []"
  by (auto simp: LAYERS_def)

lemma length_LAYERS: "length LAYERS = 8"
  using arg_cong [OF LAYERS_ids, of length] by simp

lemma nth_LAYERS_mem: "i < 8 \<Longrightarrow> LAYERS ! i \<in> set LAYERS"
  by (simp add: length_LAYERS)

lemma id_l_nth_LAYERS:
  "i < 8 \<Longrightarrow> id_l (LAYERS ! i) =
     [''intro-globe'', ''total-methane'', ''no2-monthly'', ''days-above-90f'', ''geoglam'',
      ''grdi-v1'', ''poi-showcase'', ''finale''] ! i"
  using nth_map [of i LAYERS id_l] by (simp add: length_LAYERS LAYERS_ids)

lemma view_nth_LAYERS: "i < 8 \<Longrightarrow> view (LAYERS ! i) = map view LAYERS ! i"
  by (simp add: length_LAYERS)

lemma distinct_ids: "distinct (map id_l LAYERS)"
  by (simp add: LAYERS_ids)

lemma find_distinct_key:
  "distinct (map f xs) \<Longrightarrow> x \<in> set xs \<Longrightarrow> find (\<lambda>k. f k = f x) xs = Some x"
  by (induction xs) auto

lemma map_of_distinct_key:
  "distinct (map f xs) \<Longrightarrow> x \<in> set xs \<Longrightarrow>
     map_of (map (\<lambda>l. (f l, g l)) xs) (f x) = Some (g x)"
  by (induction xs) (auto simp: image_iff)

lemma find_LAYERS_None:
  "chapterId \<notin> set (map id_l LAYERS) \<Longrightarrow> find (\<lambda>l. id_l l = chapterId) LAYERS = None"
  by (auto simp: find_None_iff)

lemma find_LAYERS_Some: "l \<in> set LAYERS \<Longrightarrow> find (\<lambda>k. id_l k = id_l l) LAYERS = Some l"
  by (rule find_distinct_key [OF distinct_ids])

lemma find_LAYERS_mem: "find (\<lambda>l. id_l l = c) LAYERS = Some l \<Longrightarrow> l \<in> set LAYERS \<and> id_l l = c"
  by (auto simp: find_Some_iff)

section \<open>Facts about the handlers\<close>

lemma commit_same: "commit w w = w"
  by (simp add: commit_def)

lemma map_of_picker_None:
  "chapterId \<notin> set (map id_l LAYERS) \<Longrightarrow> map_of (picker w) chapterId = None"
  by (auto simp: picker_def map_of_eq_None_iff image_iff)

lemma selectChapter_catalog:
  "l \<in> set LAYERS \<Longrightarrow> freeMode w \<Longrightarrow> selectChapter (id_l l) w = w\<lparr>activeLayer := l\<rparr>"
  by (simp add: selectChapter_def picker_def picker_onClick_def
      map_of_distinct_key [OF distinct_ids])

lemma handleStepEnter_catalog:
  "l \<in> set LAYERS \<Longrightarrow> \<not> freeMode w \<Longrightarrow> id_d (data e) = id_l l \<Longrightarrow>
     handleStepEnter e w = w\<lparr>activeLayer := l, visibleId := Some (id_l l)\<rparr>"
  by (simp add: handleStepEnter_def find_LAYERS_Some)

lemma rotation_effect_noMap: "mapRef w = None \<Longrightarrow> rotation_effect w = w\<lparr>cleanup := None\<rparr>"
  by (simp add: rotation_effect_def)

lemma flyTo_effect_noMap: "mapRef w = None \<Longrightarrow> flyTo_effect w = w"
  by (simp add: flyTo_effect_def)

lemma mount_eq: "mount mobile = initial\<lparr>freeMode := mobile, isMobile := mobile\<rparr>"
  by (cases mobile)
    (simp_all add: mount_def flyTo_effect_noMap rotation_effect_noMap mobile_effect_def
      initial_def Let_def)

lemma initial_simps:
  "visibleId initial = None" "freeMode initial = False" "isMobile initial = False"
  "mapRef initial = None" "mapLoaded initial = False" "cleanup initial = None"
  "runs initial = 0" "activeLayer initial = LAYERS ! 0"
  by (simp_all add: initial_def)

section \<open>Facts about rounding\<close>

lemma pow2_powr: "pow2 e = 2 powr of_int e"
proof (cases "0 \<le> e")
  case True
  then have "2 powr of_int e = (2::real) powr real (nat e)"
    by simp
  also have "\<dots> = 2 ^ nat e"
    by (rule powr_realpow) simp
  finally show ?thesis
    using True by (simp add: pow2_def)
next
  case False
  then have "2 powr of_int e = (2::real) powr - real (nat (- e))"
    by simp
  also have "\<dots> = 1 / 2 powr real (nat (- e))"
    by (simp add: powr_minus divide_inverse)
  also have "2 powr real (nat (- e)) = (2::real) ^ nat (- e)"
    by (rule powr_realpow) simp
  finally show ?thesis
    using False by (simp add: pow2_def)
qed

lemma pow2_pos [simp]: "0 < pow2 e"
  by (simp add: pow2_powr)

lemma pow2_nonzero [simp]: "pow2 e \<noteq> 0"
  by (simp add: pow2_powr)

lemma pow2_add: "pow2 (a + b) = pow2 a * pow2 b"
  by (simp add: pow2_powr powr_add)

lemma pow2_diff: "pow2 (a - b) = pow2 a / pow2 b"
  by (simp add: pow2_powr powr_diff)

lemma pow2_mono: "a \<le> b \<Longrightarrow> pow2 a \<le> pow2 b"
  by (simp add: pow2_powr)

lemma pow2_nat: "0 \<le> e \<Longrightarrow> pow2 e = of_int (2 ^ nat e)"
  by (simp add: pow2_def)

lemma pow2_52: "pow2 52 = 2 ^ 52" and pow2_53: "pow2 53 = 2 ^ 53"
  by (simp_all add: pow2_def)

lemma round_even_of_int [simp]: "round_even (of_int n) = n"
  by (simp add: round_even_def)

lemma round_even_0 [simp]: "round_even 0 = 0"
  using round_even_of_int [of 0] by simp

lemma round_even_bounds: "\<lfloor>y\<rfloor> \<le> round_even y \<and> round_even y \<le> \<lfloor>y\<rfloor> + 1"
  by (simp add: round_even_def Let_def)

lemma round_even_mono:
  assumes "a \<le> b"
  shows "round_even a \<le> round_even b"
proof (cases "\<lfloor>a\<rfloor> = \<lfloor>b\<rfloor>")
  case True
  with assms show ?thesis
    by (auto simp: round_even_def Let_def)
next
  case False
  with assms have "\<lfloor>a\<rfloor> + 1 \<le> \<lfloor>b\<rfloor>"
    using floor_mono [OF assms] by linarith
  with round_even_bounds [of a] round_even_bounds [of b] show ?thesis
    by linarith
qed

lemma round_even_ge: "of_int n \<le> y \<Longrightarrow> n \<le> round_even y"
  using round_even_mono [of "of_int n" y] by simp

lemma round_even_le: "y \<le> of_int n \<Longrightarrow> round_even y \<le> n"
  using round_even_mono [of y "of_int n"] by simp

lemma exponent_bounds:
  assumes "x \<noteq> 0"
  shows "pow2 (exponent x) \<le> \<bar>x\<bar>" and "\<bar>x\<bar> < pow2 (exponent x + 1)"
proof -
  from assms have "0 < \<bar>x\<bar>" by simp
  from floor_log_eq_powr_iff [OF this, of 2 "exponent x"]
  show "pow2 (exponent x) \<le> \<bar>x\<bar>" and "\<bar>x\<bar> < pow2 (exponent x + 1)"
    by (simp_all add: exponent_def pow2_powr)
qed

lemma exponent_eq:
  assumes "pow2 e \<le> \<bar>x\<bar>" and "\<bar>x\<bar> < pow2 (e + 1)"
  shows "exponent x = e"
proof -
  from assms(1) have "0 < \<bar>x\<bar>"
    using pow2_pos [of e] by linarith
  from floor_log_eq_powr_iff [OF this, of 2 e] assms show ?thesis
    by (simp add: exponent_def pow2_powr)
qed

lemma exponent_mono:
  assumes "0 < a" and "a \<le> b"
  shows "exponent a \<le> exponent b"
  using assms by (simp add: exponent_def floor_mono)

lemma exponent_abs [simp]: "exponent \<bar>x\<bar> = exponent x"
  by (simp add: exponent_def)

lemma ulp_abs [simp]: "ulp \<bar>x\<bar> = ulp x"
  by (simp add: ulp_def)

lemma ulp_pos [simp]: "0 < ulp x"
  by (simp add: ulp_def)

lemma ulp_nonneg [simp]: "0 \<le> ulp x"
  by (rule less_imp_le [OF ulp_pos])

lemma ulp_nonzero [simp]: "ulp x \<noteq> 0"
  by (simp add: ulp_def)

lemma rnd_0 [simp]: "rnd 0 = 0"
  by (simp add: rnd_def)

lemma rnd_minus: "rnd (- x) = - rnd x"
  by (simp add: rnd_def ulp_def exponent_def sgn_minus)

lemma rnd_pos: "0 < x \<Longrightarrow> rnd x = of_int (round_even (x / ulp x)) * ulp x"
  by (simp add: rnd_def)

text \<open>The scaled significand of a positive number lies between \<open>2\<^sup>5\<^sup>2\<close> and \<open>2\<^sup>5\<^sup>3\<close>.\<close>

lemma ulp_scaled:
  "ulp x * pow2 52 = pow2 (exponent x)" "ulp x * pow2 53 = pow2 (exponent x + 1)"
proof -
  have "exponent x - 52 + 52 = exponent x" and "exponent x - 52 + 53 = exponent x + 1"
    by simp_all
  with pow2_add [of "exponent x - 52" 52] pow2_add [of "exponent x - 52" 53]
  show "ulp x * pow2 52 = pow2 (exponent x)" "ulp x * pow2 53 = pow2 (exponent x + 1)"
    by (simp_all only: ulp_def)
qed

lemma significand_bounds:
  assumes "0 < x"
  shows "pow2 52 \<le> x / ulp x" and "x / ulp x < pow2 53"
proof -
  from exponent_bounds [of x] assms
  have "pow2 (exponent x) \<le> x" and "x < pow2 (exponent x + 1)"
    by simp_all
  then have "ulp x * pow2 52 \<le> x" and "x < ulp x * pow2 53"
    by (simp_all only: ulp_scaled)
  then show "pow2 52 \<le> x / ulp x" and "x / ulp x < pow2 53"
    by (simp_all add: pos_le_divide_eq pos_divide_less_eq mult.commute)
qed

lemma rnd_pos_bounds:
  assumes "0 < x"
  shows "pow2 (exponent x) \<le> rnd x" and "rnd x \<le> pow2 (exponent x + 1)"
proof -
  define lo hi :: int where "lo = 2 ^ 52" and "hi = 2 ^ 53"
  have lo: "pow2 52 = of_int lo" and hi: "pow2 53 = of_int hi"
    by (simp_all add: lo_def hi_def pow2_def)
  let ?r = "round_even (x / ulp x)"
  have "lo \<le> ?r"
    using significand_bounds(1) [OF assms] by (intro round_even_ge) (simp add: lo)
  then have l: "of_int lo * ulp x \<le> of_int ?r * ulp x"
    by (simp add: mult_right_mono)
  have "pow2 (exponent x) = of_int lo * ulp x"
    using ulp_scaled(1) [of x] by (simp only: lo mult.commute)
  also note l
  also have "of_int ?r * ulp x = rnd x"
    using assms by (simp only: rnd_pos)
  finally show "pow2 (exponent x) \<le> rnd x" .
  have "?r \<le> hi"
    using significand_bounds(2) [OF assms] by (intro round_even_le) (simp add: hi)
  then have h: "of_int ?r * ulp x \<le> of_int hi * ulp x"
    by (simp add: mult_right_mono)
  have "rnd x = of_int ?r * ulp x"
    using assms by (simp only: rnd_pos)
  also note h
  also have "of_int hi * ulp x = pow2 (exponent x + 1)"
    using ulp_scaled(2) [of x] by (simp only: hi mult.commute)
  finally show "rnd x \<le> pow2 (exponent x + 1)" .
qed

lemma rnd_pos_mono:
  assumes "0 < a" and "a \<le> b"
  shows "rnd a \<le> rnd b"
proof (cases "exponent a = exponent b")
  case True
  then have u: "ulp a = ulp b"
    by (simp add: ulp_def)
  from assms(2) have "a / ulp b \<le> b / ulp b"
    by (rule divide_right_mono) (rule less_imp_le [OF ulp_pos])
  then have "round_even (a / ulp b) \<le> round_even (b / ulp b)"
    by (rule round_even_mono)
  then have "of_int (round_even (a / ulp b)) * ulp b \<le> of_int (round_even (b / ulp b)) * ulp b"
    by (simp add: mult_right_mono)
  with assms show ?thesis
    by (simp add: rnd_pos u)
next
  case False
  with exponent_mono [OF assms] have "exponent a + 1 \<le> exponent b"
    by simp
  then have "pow2 (exponent a + 1) \<le> pow2 (exponent b)"
    by (rule pow2_mono)
  with rnd_pos_bounds(2) [of a] rnd_pos_bounds(1) [of b] assms show ?thesis
    by linarith
qed

lemma rnd_nonneg:
  assumes "0 \<le> x"
  shows "0 \<le> rnd x"
proof -
  from assms have "0 \<le> round_even (\<bar>x\<bar> / ulp x)"
    by (intro round_even_ge) (simp add: divide_nonneg_pos)
  then have "0 \<le> of_int (round_even (\<bar>x\<bar> / ulp x)) * ulp x"
    by (intro mult_nonneg_nonneg) simp_all
  with assms show ?thesis
    by (simp add: rnd_def sgn_if del: of_int_0_le_iff)
qed

lemma rnd_mono:
  assumes "x \<le> y"
  shows "rnd x \<le> rnd y"
proof -
  consider "0 < x" | "x \<le> 0" "0 \<le> y" | "y < 0"
    using assms by linarith
  then show ?thesis
  proof cases
    case 1
    from 1 assms show ?thesis by (rule rnd_pos_mono)
  next
    case 2
    then have "0 \<le> rnd y" and "0 \<le> rnd (- x)"
      by (simp_all add: rnd_nonneg)
    then show ?thesis
      by (simp add: rnd_minus)
  next
    case 3
    with assms have "rnd (- y) \<le> rnd (- x)"
      by (intro rnd_pos_mono) simp_all
    then show ?thesis
      by (simp add: rnd_minus)
  qed
qed

text \<open>A number with a significand of at most 53 bits is a double.\<close>

lemma rnd_representable:
  assumes "\<bar>n\<bar> < 2 ^ 53"
  shows "rnd (of_int n * pow2 j) = of_int n * pow2 j"
proof (cases "n = 0")
  case True
  then show ?thesis by simp
next
  case False
  define x where "x = of_int n * pow2 j"
  define a where "a = \<bar>n\<bar>"
  from False have ax: "\<bar>x\<bar> = of_int a * pow2 j" and a0: "0 < a"
    by (simp_all add: x_def a_def abs_mult abs_of_pos)
  then have x0: "x \<noteq> 0"
    by (simp add: x_def False)
  from assms have "of_int a < (2 ^ 53 :: real)"
    unfolding a_def by (metis of_int_less_iff of_int_numeral of_int_power)
  then have "\<bar>x\<bar> < 2 ^ 53 * pow2 j"
    by (simp add: ax)
  also have "\<dots> = pow2 (j + 53)"
    using pow2_add [of j 53] by (simp add: pow2_def)
  finally have "pow2 (exponent x) < pow2 (j + 53)"
    using exponent_bounds(1) [OF x0] by linarith
  then have "exponent x < j + 53"
    using pow2_mono [of "j + 53" "exponent x"] by (cases "exponent x < j + 53") auto
  then have k: "0 \<le> j - (exponent x - 52)"
    by simp
  have "\<bar>x\<bar> / ulp x = of_int a * pow2 (j - (exponent x - 52))"
    by (simp add: ax ulp_def pow2_diff)
  also have "\<dots> = of_int (a * 2 ^ nat (j - (exponent x - 52)))"
    using k by (simp add: pow2_nat)
  finally have q: "\<bar>x\<bar> / ulp x = of_int (a * 2 ^ nat (j - (exponent x - 52)))" .
  then have "round_even (\<bar>x\<bar> / ulp x) = a * 2 ^ nat (j - (exponent x - 52))"
    by (simp only: round_even_of_int)
  moreover from q have "\<bar>x\<bar> = of_int (a * 2 ^ nat (j - (exponent x - 52))) * ulp x"
    by (simp add: divide_eq_eq)
  ultimately have "of_int (round_even (\<bar>x\<bar> / ulp x)) * ulp x = \<bar>x\<bar>"
    by simp
  then have "rnd x = sgn x * \<bar>x\<bar>"
    by (simp add: rnd_def)
  then have "rnd x = x"
    by (simp add: sgn_mult_abs)
  then show ?thesis
    by (simp add: x_def)
qed

text \<open>A double is a multiple of the spacing of its binade.\<close>

lemma is_double_grid:
  assumes "is_double x"
  obtains n :: int where "x = of_int n * ulp x"
proof -
  let ?r = "round_even (\<bar>x\<bar> / ulp x)"
  from assms have x: "x = sgn x * (of_int ?r * ulp x)"
    by (simp add: is_double_def rnd_def)
  show thesis
  proof (cases "x < 0")
    case True
    with x have "x = of_int (- ?r) * ulp x"
      by (simp add: sgn_if)
    then show thesis by (rule that)
  next
    case False
    with x have "x = of_int ?r * ulp x"
      by (cases "x = 0") (simp_all add: sgn_if)
    then show thesis by (rule that)
  qed
qed

lemma rnd_of_int: "\<bar>n\<bar> < 2 ^ 53 \<Longrightarrow> rnd (of_int n) = of_int n"
  using rnd_representable [of n 0] by (simp add: pow2_def)

lemma rnd_numeral [simp]: "\<bar>numeral k :: int\<bar> < 2 ^ 53 \<Longrightarrow> rnd (numeral k) = numeral k"
  using rnd_of_int [of "numeral k"] by simp

lemma rnd_1 [simp]: "rnd 1 = 1"
  using rnd_of_int [of 1] by simp

lemma is_double_of_int: "\<bar>n\<bar> < 2 ^ 53 \<Longrightarrow> is_double (of_int n)"
  by (simp add: is_double_def rnd_of_int)

lemma round_even_down: "of_int f \<le> y \<Longrightarrow> y < of_int f + 1 / 2 \<Longrightarrow> round_even y = f"
proof -
  assume a: "of_int f \<le> y" "y < of_int f + 1 / 2"
  then have "\<lfloor>y\<rfloor> = f"
    by (intro floor_unique) simp_all
  with a show ?thesis
    by (simp add: round_even_def Let_def)
qed

lemma round_even_tie: "y = of_int f + 1 / 2 \<Longrightarrow> even f \<Longrightarrow> round_even y = f"
proof -
  assume a: "y = of_int f + 1 / 2" "even f"
  then have "\<lfloor>y\<rfloor> = f"
    by (intro floor_unique) simp_all
  with a show ?thesis
    by (simp add: round_even_def Let_def)
qed

lemma rnd_pos_eval:
  assumes "pow2 e \<le> x" and "x < pow2 (e + 1)" and "round_even (x / pow2 (e - 52)) = r"
  shows "rnd x = of_int r * pow2 (e - 52)"
proof -
  from assms(1) have x: "0 < x"
    using pow2_pos [of e] by linarith
  with assms(1,2) have "exponent x = e"
    by (intro exponent_eq) simp_all
  with x assms(3) show ?thesis
    by (simp add: rnd_pos ulp_def)
qed

section \<open>The zoom factor in doubles\<close>

lemma double_between_3_and_4:
  assumes "is_double z" and "3 < z" and "z < 4"
  obtains n :: int where "z = of_int n * pow2 (- 51)" and "3 * 2 ^ 51 < n" and "n < 2 ^ 53"
proof -
  from assms(2,3) have "exponent z = 1"
    by (intro exponent_eq) (simp_all add: pow2_def)
  then have u: "ulp z = pow2 (- 51)"
    by (simp add: ulp_def)
  from is_double_grid [OF assms(1)] obtain n :: int where n: "z = of_int n * pow2 (- 51)"
    unfolding u by blast
  from assms(2,3) have "3 * 2 ^ 51 < (of_int n :: real)" and "(of_int n :: real) < 2 ^ 53"
    unfolding n by (simp_all add: pow2_def field_simps)
  then have "3 * 2 ^ 51 < n" and "n < 2 ^ 53"
    by simp_all
  with n show thesis by (rule that)
qed

lemma double_between_4_and_5:
  assumes "is_double z" and "4 \<le> z" and "z < 5"
  obtains n :: int where "z = of_int n * pow2 (- 50)" and "2 ^ 52 \<le> n" and "n < 5 * 2 ^ 50"
proof -
  from assms(2,3) have "exponent z = 2"
    by (intro exponent_eq) (simp_all add: pow2_def)
  then have u: "ulp z = pow2 (- 50)"
    by (simp add: ulp_def)
  from is_double_grid [OF assms(1)] obtain n :: int where n: "z = of_int n * pow2 (- 50)"
    unfolding u by blast
  from assms(2,3) have "2 ^ 52 \<le> (of_int n :: real)" and "(of_int n :: real) < 5 * 2 ^ 50"
    unfolding n by (simp_all add: pow2_def field_simps)
  then have "2 ^ 52 \<le> n" and "n < 5 * 2 ^ 50"
    by simp_all
  with n show thesis by (rule that)
qed

text \<open>
  For a double \<open>z\<close> strictly between 3 and 5 the difference \<open>5 - z\<close> is a double, and so is
  its half; it is at least \<open>2\<^sup>-\<^sup>5\<^sup>0\<close> and at most \<open>2 - 2\<^sup>-\<^sup>5\<^sup>1\<close>.
\<close>

lemma five_minus_zoom:
  assumes "is_double z" and "3 < z" and "z < 5"
  shows "rnd (5 - z) = 5 - z" and "rnd ((5 - z) / 2) = (5 - z) / 2"
    and "pow2 (- 50) \<le> 5 - z" and "5 - z \<le> 2 - pow2 (- 51)"
proof -
  have "rnd (5 - z) = 5 - z \<and> rnd ((5 - z) / 2) = (5 - z) / 2
      \<and> pow2 (- 50) \<le> 5 - z \<and> 5 - z \<le> 2 - pow2 (- 51)"
  proof (cases "z < 4")
    case True
    from assms(1,2) True obtain n :: int where n: "z = of_int n * pow2 (- 51)"
      and lo: "3 * 2 ^ 51 < n" and hi: "n < 2 ^ 53"
      by (rule double_between_3_and_4)
    define m where "m = 5 * 2 ^ 51 - n"
    from lo hi have m: "0 < m" "m < 2 ^ 52" "\<bar>m\<bar> < 2 ^ 53"
      by (simp_all add: m_def)
    have d: "5 - z = of_int m * pow2 (- 51)"
      by (simp add: n m_def pow2_def field_simps)
    have h: "(5 - z) / 2 = of_int m * pow2 (- 52)"
      by (simp add: d pow2_def)
    from m(2) have "m \<le> 2 ^ 52 - 1"
      by simp
    then have "(of_int m :: real) \<le> of_int (2 ^ 52 - 1)"
      by (simp only: of_int_le_iff)
    then have "of_int m \<le> (2 ^ 52 - 1 :: real)"
      by simp
    then have "5 - z \<le> 2 - pow2 (- 51)"
      unfolding d by (simp add: pow2_def field_simps)
    moreover from True have "pow2 (- 50) \<le> 5 - z"
      by (simp add: pow2_def)
    ultimately show ?thesis
      using rnd_representable [OF m(3), of "- 51"] rnd_representable [OF m(3), of "- 52"]
      by (simp only: d [symmetric] h [symmetric] simp_thms)
  next
    case False
    then have "4 \<le> z"
      by simp
    with assms(1) obtain n :: int where n: "z = of_int n * pow2 (- 50)"
      and lo: "2 ^ 52 \<le> n" and hi: "n < 5 * 2 ^ 50"
      using assms(3) by (rule double_between_4_and_5)
    define m where "m = 5 * 2 ^ 50 - n"
    from lo hi have m: "0 < m" "m \<le> 2 ^ 50" "\<bar>m\<bar> < 2 ^ 53"
      by (simp_all add: m_def)
    have d: "5 - z = of_int m * pow2 (- 50)"
      by (simp add: n m_def pow2_def field_simps)
    have h: "(5 - z) / 2 = of_int m * pow2 (- 51)"
      by (simp add: d pow2_def)
    from m(1) have "1 \<le> m"
      by simp
    then have "(of_int 1 :: real) \<le> of_int m"
      by (simp only: of_int_le_iff)
    then have "(1 :: real) \<le> of_int m"
      by simp
    then have "pow2 (- 50) \<le> 5 - z"
      unfolding d by (simp add: pow2_def field_simps)
    moreover from False have "5 - z \<le> 2 - pow2 (- 51)"
      by (simp add: pow2_def)
    ultimately show ?thesis
      using rnd_representable [OF m(3), of "- 50"] rnd_representable [OF m(3), of "- 51"]
      by (simp only: d [symmetric] h [symmetric] simp_thms)
  qed
  then show "rnd (5 - z) = 5 - z" and "rnd ((5 - z) / 2) = (5 - z) / 2"
    and "pow2 (- 50) \<le> 5 - z" and "5 - z \<le> 2 - pow2 (- 51)"
    by simp_all
qed

lemma distancePerSecond_slow: "z \<le> 3 \<Longrightarrow> distancePerSecond z = 3"
  by (simp add: distancePerSecond_def secondsPerRevolution_def slowSpinZoom_def fdiv_def)

lemma distancePerSecond_scaled:
  assumes "is_double z" and "3 < z" and "z < 5"
  shows "distancePerSecond z = rnd (3 * ((5 - z) / (5 - 3)))"
    and "3 * pow2 (- 51) \<le> distancePerSecond z"
    and "distancePerSecond z \<le> 3 - pow2 (- 51)"
proof -
  note f = five_minus_zoom [OF assms]
  have a: "fsub maxSpinZoom z = 5 - z" and b: "fsub maxSpinZoom slowSpinZoom = 2"
    and e: "fdiv 360 secondsPerRevolution = 3"
    by (simp_all add: fsub_def fdiv_def maxSpinZoom_def slowSpinZoom_def
        secondsPerRevolution_def f(1))
  have c: "fdiv (5 - z) 2 = (5 - z) / 2"
    by (simp only: fdiv_def f(2))
  from assms(3) have m: "max 0 ((5 - z) / 2) = (5 - z) / 2"
    by simp
  from assms(2) have g: "z > slowSpinZoom"
    by (simp add: slowSpinZoom_def)
  have "distancePerSecond z = fmul 3 ((5 - z) / 2)"
    by (simp only: distancePerSecond_def Let_def a b c e m g if_True)
  then show d: "distancePerSecond z = rnd (3 * ((5 - z) / (5 - 3)))"
    by (simp add: fmul_def)
  have "rnd (of_int 3 * pow2 (- 51)) \<le> rnd (3 * ((5 - z) / (5 - 3)))"
    using f(3) by (intro rnd_mono) (simp add: pow2_def)
  then show "3 * pow2 (- 51) \<le> distancePerSecond z"
    using rnd_representable [of 3 "- 51"] by (simp add: d)
  have "rnd (3 * ((5 - z) / (5 - 3))) \<le> rnd (of_int (3 * 2 ^ 51 - 1) * pow2 (- 51))"
    using f(4) by (intro rnd_mono) (simp add: pow2_def)
  then show "distancePerSecond z \<le> 3 - pow2 (- 51)"
    using rnd_representable [of "3 * 2 ^ 51 - 1" "- 51"] by (simp add: d pow2_def)
qed

lemma distancePerSecond_ge_1:
  assumes "is_double z" and "z \<le> 4"
  shows "1 \<le> distancePerSecond z"
proof (cases "z \<le> 3")
  case True
  then show ?thesis by (simp add: distancePerSecond_slow)
next
  case False
  with assms have z: "3 < z" "z < 5"
    by simp_all
  from assms(2) have "rnd 1 \<le> rnd (3 * ((5 - z) / (5 - 3)))"
    by (intro rnd_mono) simp
  then show ?thesis
    by (simp add: distancePerSecond_scaled(1) [OF assms(1) z])
qed

lemma fsub_not_east:
  assumes "is_double c" and "0 \<le> d"
  shows "fsub c d \<le> c"
proof -
  from assms(2) have "rnd (c - d) \<le> rnd c"
    by (intro rnd_mono) simp
  with assms(1) show ?thesis
    by (simp add: fsub_def is_double_def)
qed

lemma fsub_west:
  assumes "1 \<le> d" and "\<bar>c\<bar> \<le> 2 ^ 52"
  shows "fsub c d < c"
proof -
  define k where "k = \<lceil>c\<rceil> - 1"
  have k: "of_int k < c" "c \<le> of_int k + 1"
    unfolding k_def by linarith+
  from assms(2) k have "- (2 ^ 52) - 1 \<le> (of_int k :: real)" and "(of_int k :: real) < 2 ^ 52"
    by linarith+
  then have "- (2 ^ 52) - 1 \<le> k" and "k < 2 ^ 52"
    by simp_all
  then have "\<bar>k\<bar> < 2 ^ 53"
    by simp
  then have r: "rnd (of_int k) = of_int k"
    by (rule rnd_of_int)
  from assms(1) k(2) have "rnd (c - d) \<le> rnd (of_int k)"
    by (intro rnd_mono) linarith
  with r k(1) show ?thesis
    by (simp add: fsub_def)
qed

text \<open>Two roundings, evaluated.\<close>

lemma absorbed_increment: "fsub (- 74) (3 * pow2 (- 51)) = - 74"
proof -
  have "round_even ((74 + 3 * pow2 (- 51)) / pow2 (6 - 52)) = 74 * 2 ^ 46"
    by (rule round_even_down) (simp_all add: pow2_def)
  then have "rnd (74 + 3 * pow2 (- 51)) = of_int (74 * 2 ^ 46) * pow2 (6 - 52)"
    by (intro rnd_pos_eval) (simp_all add: pow2_def)
  then have "rnd (74 + 3 * pow2 (- 51)) = 74"
    by (simp add: pow2_def)
  then have "rnd (- (74 + 3 * pow2 (- 51))) = - 74"
    by (simp only: rnd_minus)
  then show ?thesis
    by (simp add: fsub_def)
qed

lemma tie_to_even: "rnd (3 - 3 * pow2 (- 52)) = 3 - pow2 (- 50)"
proof -
  have "round_even ((3 - 3 * pow2 (- 52)) / pow2 (1 - 52)) = 3 * 2 ^ 51 - 2"
    by (rule round_even_tie) (simp_all add: pow2_def)
  then have "rnd (3 - 3 * pow2 (- 52)) = of_int (3 * 2 ^ 51 - 2) * pow2 (1 - 52)"
    by (intro rnd_pos_eval) (simp_all add: pow2_def)
  then show ?thesis
    by (simp add: pow2_def)
qed

lemma is_double_examples:
  "is_double (5 - pow2 (- 50))" "is_double (3 + pow2 (- 51))" "is_double (- 74)"
  "is_double 0" "is_double 2" "is_double 4" "is_double 6"
proof -
  have a: "of_int (5 * 2 ^ 50 - 1) * pow2 (- 50) = 5 - pow2 (- 50)"
    and b: "of_int (3 * 2 ^ 51 + 1) * pow2 (- 51) = 3 + pow2 (- 51)"
    by (simp_all add: pow2_def)
  have "rnd (of_int (5 * 2 ^ 50 - 1) * pow2 (- 50)) = of_int (5 * 2 ^ 50 - 1) * pow2 (- 50)"
    by (rule rnd_representable) simp
  then show "is_double (5 - pow2 (- 50))"
    by (simp only: a is_double_def)
  have "rnd (of_int (3 * 2 ^ 51 + 1) * pow2 (- 51)) = of_int (3 * 2 ^ 51 + 1) * pow2 (- 51)"
    by (rule rnd_representable) simp
  then show "is_double (3 + pow2 (- 51))"
    by (simp only: b is_double_def)
  show "is_double (- 74)" "is_double 0" "is_double 2" "is_double 4" "is_double 6"
    by (simp_all add: is_double_def rnd_minus)
qed

lemma distancePerSecond_examples:
  "distancePerSecond (5 - pow2 (- 50)) = 3 * pow2 (- 51)"
  "distancePerSecond (3 + pow2 (- 51)) = 3 - pow2 (- 50)"
  "distancePerSecond 4 = 3 / 2"
  "distancePerSecond 2 = 3"
proof -
  have "3 < 5 - pow2 (- 50)" "5 - pow2 (- 50) < 5" "3 < 3 + pow2 (- 51)" "3 + pow2 (- 51) < 5"
    by (simp_all add: pow2_def)
  note a = distancePerSecond_scaled(1) [OF is_double_examples(1) this(1,2)]
    and b = distancePerSecond_scaled(1) [OF is_double_examples(2) this(3,4)]
  have "3 * ((5 - (5 - pow2 (- 50))) / (5 - 3)) = of_int 3 * pow2 (- 51)"
    by (simp add: pow2_def)
  with a show "distancePerSecond (5 - pow2 (- 50)) = 3 * pow2 (- 51)"
    using rnd_representable [of 3 "- 51"] by simp
  have "3 * ((5 - (3 + pow2 (- 51))) / (5 - 3)) = 3 - 3 * pow2 (- 52)"
    by (simp add: pow2_def)
  with b show "distancePerSecond (3 + pow2 (- 51)) = 3 - pow2 (- 50)"
    by (simp only: tie_to_even)
  have "rnd (of_int 3 * pow2 (- 1)) = of_int 3 * pow2 (- 1)"
    by (rule rnd_representable) simp
  then have "rnd (3 / 2) = 3 / 2"
    by (simp add: pow2_def)
  with distancePerSecond_scaled(1) [OF is_double_examples(6)]
  show "distancePerSecond 4 = 3 / 2"
    by simp
  show "distancePerSecond 2 = 3"
    by (simp add: distancePerSecond_slow)
qed

section \<open>Facts about the map calls and the effects\<close>

lemma listeners_calls [simp]:
  "listeners (stop m) = listeners m"
  "listeners (easeTo opts m) = listeners m"
  "listeners (flyTo fopts m) = listeners m"
  "calls (on ev h m) = calls m"
  "calls (off ev h m) = calls m"
  "calls (stop m) = calls m @ [Stop]"
  "calls (flyTo fopts m) = calls m @ [FlyTo fopts]"
  "listeners (off ev h m) = remove1 (ev, h) (listeners m)"
  by (simp_all add: stop_def easeTo_def flyTo_def on_def off_def)

lemma listeners_spinGlobe [simp]: "listeners (spinGlobe b m) = listeners m"
  by (simp add: spinGlobe_def easeTo_def Let_def)

lemma listeners_registered:
  "listeners m = [] \<Longrightarrow>
   listeners (on moveend (SpinGlobe g) (on rotateend (Resume g) (on pitchend (Resume g)
     (on dragend (Resume g) (on mouseup (Resume g) (on mousedown (Pause g) m)))))) =
   rotation_listeners g"
  by (simp add: on_def rotation_listeners_def)

lemma with_map_fields [simp]:
  "activeLayer (with_map f w) = activeLayer w"
  "visibleId (with_map f w) = visibleId w"
  "freeMode (with_map f w) = freeMode w"
  "isMobile (with_map f w) = isMobile w"
  "mapLoaded (with_map f w) = mapLoaded w"
  "cleanup (with_map f w) = cleanup w"
  "runs (with_map f w) = runs w"
  "userInteracting (with_map f w) = userInteracting w"
  "mapRef (with_map f w) = map_option f (mapRef w)"
  by (simp_all add: with_map_def split: option.splits)

lemma rotation_effect_fields [simp]:
  "activeLayer (rotation_effect w) = activeLayer w"
  "visibleId (rotation_effect w) = visibleId w"
  "freeMode (rotation_effect w) = freeMode w"
  "isMobile (rotation_effect w) = isMobile w"
  "mapLoaded (rotation_effect w) = mapLoaded w"
  "(mapRef (rotation_effect w) = None) = (mapRef w = None)"
  by (simp_all add: rotation_effect_def Let_def split: option.splits)

lemma run_cleanup_fields [simp]:
  "activeLayer (run_cleanup w) = activeLayer w"
  "visibleId (run_cleanup w) = visibleId w"
  "freeMode (run_cleanup w) = freeMode w"
  "isMobile (run_cleanup w) = isMobile w"
  "mapLoaded (run_cleanup w) = mapLoaded w"
  "cleanup (run_cleanup w) = None"
  "(mapRef (run_cleanup w) = None) = (mapRef w = None)"
  by (simp_all add: run_cleanup_def Let_def split: option.splits)

lemma flyTo_effect_fields [simp]:
  "activeLayer (flyTo_effect w) = activeLayer w"
  "visibleId (flyTo_effect w) = visibleId w"
  "freeMode (flyTo_effect w) = freeMode w"
  "isMobile (flyTo_effect w) = isMobile w"
  "mapLoaded (flyTo_effect w) = mapLoaded w"
  "cleanup (flyTo_effect w) = cleanup w"
  "(mapRef (flyTo_effect w) = None) = (mapRef w = None)"
  "listeners_of (flyTo_effect w) = listeners_of w"
  by (simp_all add: flyTo_effect_def listeners_of_def split: option.splits)

lemma commit_fields [simp]:
  "activeLayer (commit w w') = activeLayer w'"
  "visibleId (commit w w') = visibleId w'"
  "freeMode (commit w w') = freeMode w'"
  "isMobile (commit w w') = isMobile w'"
  "mapLoaded (commit w w') = mapLoaded w'"
  "(mapRef (commit w w') = None) = (mapRef w' = None)"
  by (simp_all add: commit_def Let_def)

lemma call_listener_fields [simp]:
  "activeLayer (call_listener h w) = activeLayer w"
  "visibleId (call_listener h w) = visibleId w"
  "freeMode (call_listener h w) = freeMode w"
  "isMobile (call_listener h w) = isMobile w"
  "mapLoaded (call_listener h w) = mapLoaded w"
  "cleanup (call_listener h w) = cleanup w"
  "(mapRef (call_listener h w) = None) = (mapRef w = None)"
  "listeners_of (call_listener h w) = listeners_of w"
  by (cases h; simp add: Let_def listeners_of_def split: option.splits)+

lemma foldl_call_listener_fields [simp]:
  "activeLayer (foldl (\<lambda>w h. call_listener h w) w hs) = activeLayer w"
  "visibleId (foldl (\<lambda>w h. call_listener h w) w hs) = visibleId w"
  "freeMode (foldl (\<lambda>w h. call_listener h w) w hs) = freeMode w"
  "isMobile (foldl (\<lambda>w h. call_listener h w) w hs) = isMobile w"
  "mapLoaded (foldl (\<lambda>w h. call_listener h w) w hs) = mapLoaded w"
  "cleanup (foldl (\<lambda>w h. call_listener h w) w hs) = cleanup w"
  "(mapRef (foldl (\<lambda>w h. call_listener h w) w hs) = None) = (mapRef w = None)"
  "listeners_of (foldl (\<lambda>w h. call_listener h w) w hs) = listeners_of w"
  by (induction hs arbitrary: w; simp)+

lemma fire_fields [simp]:
  "activeLayer (fire ev w) = activeLayer w"
  "visibleId (fire ev w) = visibleId w"
  "freeMode (fire ev w) = freeMode w"
  "isMobile (fire ev w) = isMobile w"
  "mapLoaded (fire ev w) = mapLoaded w"
  "cleanup (fire ev w) = cleanup w"
  "(mapRef (fire ev w) = None) = (mapRef w = None)"
  "listeners_of (fire ev w) = listeners_of w"
  by (simp_all add: fire_def split: option.splits)

lemma onLoad_activeLayer [simp]: "activeLayer (onLoad w) = activeLayer w"
  by (simp add: onLoad_def ref_callback_def split: option.splits)

lemma ref_callback_activeLayer [simp]: "activeLayer (ref_callback w) = activeLayer w"
  by (simp add: ref_callback_def split: option.splits)

lemma handleStepEnter_shape:
  "\<exists>l v. (l = activeLayer w \<or> l \<in> set LAYERS)
     \<and> handleStepEnter e w = w\<lparr>activeLayer := l, visibleId := v\<rparr>"
proof (cases "freeMode w \<or> find (\<lambda>l. id_l l = id_d (data e)) LAYERS = None")
  case True
  then have "handleStepEnter e w = w\<lparr>activeLayer := activeLayer w, visibleId := visibleId w\<rparr>"
    by (auto simp: handleStepEnter_def)
  then show ?thesis by blast
next
  case False
  then obtain l where l: "find (\<lambda>l. id_l l = id_d (data e)) LAYERS = Some l"
    by auto
  with False have "handleStepEnter e w = w\<lparr>activeLayer := l, visibleId := Some (id_d (data e))\<rparr>"
    by (simp add: handleStepEnter_def)
  with find_LAYERS_mem [OF l] show ?thesis by blast
qed

lemma selectChapter_shape:
  "\<exists>l. (l = activeLayer w \<or> l \<in> set LAYERS) \<and> selectChapter c w = w\<lparr>activeLayer := l\<rparr>"
proof (cases "map_of (picker w) c")
  case None
  then have "selectChapter c w = w\<lparr>activeLayer := activeLayer w\<rparr>"
    by (simp add: selectChapter_def)
  then show ?thesis by blast
next
  case (Some h)
  then obtain l where "l \<in> set LAYERS" and "h = picker_onClick l"
    by (auto simp: picker_def split: if_splits dest!: map_of_SomeD)
  with Some show ?thesis
    by (auto simp: selectChapter_def picker_onClick_def)
qed

section \<open>The registry of listeners between events\<close>

lemma consistent_run_cleanup:
  assumes "consistent w"
  shows "listeners_of (run_cleanup w) = []"
  using assms
  by (auto simp: consistent_def run_cleanup_def listeners_of_def with_map_def Let_def rotation_listeners_def
      split: option.splits)

lemma rotation_effect_registers:
  assumes "listeners_of w = []" and "mapLoaded w \<longrightarrow> mapRef w \<noteq> None"
    and "activeLayer w \<in> set LAYERS"
  shows "consistent (rotation_effect w)"
  using assms
  by (auto simp: consistent_def rotation_effect_def listeners_of_def Let_def
      listeners_registered split: option.splits)

lemma consistent_flyTo_effect: "consistent w \<Longrightarrow> consistent (flyTo_effect w)"
  by (auto simp: consistent_def split: option.splits)

lemma consistent_commit_setActive:
  assumes "consistent w" and "l \<in> set LAYERS"
  shows "consistent (commit w (w\<lparr>activeLayer := l, visibleId := v, freeMode := f\<rparr>))"
proof -
  let ?w' = "w\<lparr>activeLayer := l, visibleId := v, freeMode := f\<rparr>"
  show ?thesis
  proof (cases "id_l l = id_l (activeLayer w)")
    case True
    with assms have "consistent ?w'"
      by (auto simp: consistent_def listeners_of_def split: option.splits)
    with True show ?thesis
      by (auto simp: commit_def Let_def consistent_flyTo_effect)
  next
    case False
    have "run_cleanup ?w' = (run_cleanup w)\<lparr>activeLayer := l, visibleId := v, freeMode := f\<rparr>"
      by (simp add: run_cleanup_def with_map_def split: option.splits)
    then have "listeners_of (run_cleanup ?w') = []"
      using consistent_run_cleanup [OF assms(1)] by (simp add: listeners_of_def)
    moreover have "mapLoaded (run_cleanup ?w') \<longrightarrow> mapRef (run_cleanup ?w') \<noteq> None"
      using assms(1) by (simp add: consistent_def)
    ultimately have "consistent (rotation_effect (run_cleanup ?w'))"
      using assms(2) by (intro rotation_effect_registers) simp_all
    with False show ?thesis
      by (auto simp: commit_def Let_def consistent_flyTo_effect)
  qed
qed

lemma consistent_ref_callback: "consistent w \<Longrightarrow> consistent (ref_callback w)"
  by (auto simp: consistent_def ref_callback_def listeners_of_def new_map_def
      split: option.splits)

lemma consistent_onLoad:
  assumes "consistent w"
  shows "consistent (commit w (onLoad w))"
proof (cases "mapLoaded w")
  case True
  with assms have "onLoad w = w"
    by (auto simp: onLoad_def ref_callback_def consistent_def split: option.splits)
  then show ?thesis
    using assms by (simp add: commit_same)
next
  case False
  with assms have c: "cleanup w = None" and l: "listeners_of w = []"
    by (auto simp: consistent_def split: option.splits)
  from c have "run_cleanup (onLoad w) = onLoad w"
    by (simp add: run_cleanup_def onLoad_def ref_callback_def split: option.splits)
  moreover have "listeners_of (onLoad w) = []"
    using l by (simp add: onLoad_def ref_callback_def listeners_of_def new_map_def
        split: option.splits)
  moreover have "mapRef (onLoad w) \<noteq> None"
    by (simp add: onLoad_def ref_callback_def split: option.splits)
  moreover have "activeLayer (onLoad w) \<in> set LAYERS"
    using assms by (simp add: onLoad_def ref_callback_def consistent_def split: option.splits)
  ultimately have "consistent (rotation_effect (run_cleanup (onLoad w)))"
    by (intro rotation_effect_registers) simp_all
  moreover have "mapLoaded (onLoad w)" and "activeLayer (onLoad w) = activeLayer w"
    by (simp_all add: onLoad_def ref_callback_def split: option.splits)
  ultimately show ?thesis
    using False by (simp add: commit_def Let_def)
qed

lemma consistent_fire: "consistent w \<Longrightarrow> consistent (fire ev w)"
  by (auto simp: consistent_def split: option.splits)

lemma consistent_camera:
  "consistent w \<Longrightarrow> consistent (with_map (\<lambda>m. m\<lparr>map_zoom := z, map_center := c\<rparr>) w)"
  by (auto simp: consistent_def listeners_of_def split: option.splits)

lemma consistent_step:
  assumes "consistent w"
  shows "consistent (step ev w)"
proof (cases ev)
  case (StepEnter e)
  from assms have "activeLayer w \<in> set LAYERS"
    by (simp add: consistent_def)
  with handleStepEnter_shape [of w e] obtain l v
    where "l \<in> set LAYERS" and "handleStepEnter e w = w\<lparr>activeLayer := l, visibleId := v\<rparr>"
    by auto
  with consistent_commit_setActive [OF assms, where l = l and v = v and f = "freeMode w"] assms StepEnter
  show ?thesis by simp
next
  case ToggleFreeMode
  from assms have "activeLayer w \<in> set LAYERS"
    by (simp add: consistent_def)
  from consistent_commit_setActive [OF assms this, where v = "visibleId w" and f = "\<not> freeMode w"]
  show ?thesis
    using assms ToggleFreeMode by (simp add: toggleFreeMode_def)
next
  case (SelectChapter c)
  from assms have "activeLayer w \<in> set LAYERS"
    by (simp add: consistent_def)
  with selectChapter_shape [of w c] obtain l
    where "l \<in> set LAYERS" and "selectChapter c w = w\<lparr>activeLayer := l\<rparr>"
    by auto
  with consistent_commit_setActive [OF assms, where l = l and v = "visibleId w" and f = "freeMode w"] SelectChapter
  show ?thesis by simp
next
  case MapCreated
  with assms show ?thesis by (simp add: consistent_ref_callback)
next
  case MapLoad
  with assms show ?thesis by (simp add: consistent_onLoad)
next
  case (MapFire x)
  with assms show ?thesis by (simp add: consistent_fire)
next
  case (CameraMoved z c)
  with assms show ?thesis by (simp add: consistent_camera)
qed

lemma consistent_run: "consistent w \<Longrightarrow> consistent (run evs w)"
  by (induction evs arbitrary: w) (simp_all add: consistent_step)

lemma consistent_mount: "consistent (mount mobile)"
  by (simp add: consistent_def mount_eq initial_simps listeners_of_def nth_LAYERS_mem)

lemma consistent_reachable: "consistent (run evs (mount mobile))"
  by (rule consistent_run [OF consistent_mount])

lemma activeLayer_reachable: "activeLayer (run evs (mount mobile)) \<in> set LAYERS"
  using consistent_reachable [of evs mobile] by (simp add: consistent_def)

lemma id_l_inject: "l \<in> set LAYERS \<Longrightarrow> k \<in> set LAYERS \<Longrightarrow> id_l l = id_l k \<Longrightarrow> l = k"
  using distinct_ids by (auto simp: distinct_map dest: inj_onD)

lemma url_nth_LAYERS:
  "i < 8 \<Longrightarrow>
     (url (LAYERS ! i) = None) = ([True, False, False, False, False, False, True, True] ! i)"
  using nth_map [of i LAYERS "\<lambda>l. url l = None"] by (simp add: length_LAYERS LAYERS_url_defined)

lemma methane_layer:
  "LAYERS ! 1 \<in> set LAYERS" "id_l (LAYERS ! 1) = ''total-methane''"
  "url (LAYERS ! 1) \<noteq> None" "view (LAYERS ! 1) = \<lparr>latitude = 37.5, longitude = -95, zoom = 2.8\<rparr>"
  using nth_LAYERS_mem [of 1] id_l_nth_LAYERS [of 1] url_nth_LAYERS [of 1] view_nth_LAYERS [of 1]
  by (simp_all add: LAYERS_views)

lemma intro_layer:
  "LAYERS ! 0 \<in> set LAYERS" "id_l (LAYERS ! 0) = ''intro-globe''"
  "view (LAYERS ! 0) = \<lparr>latitude = 0, longitude = 0, zoom = 2\<rparr>"
  using nth_LAYERS_mem [of 0] id_l_nth_LAYERS [of 0] view_nth_LAYERS [of 0]
  by (simp_all add: LAYERS_views)

lemma step_StepEnter_catalog:
  "l \<in> set LAYERS \<Longrightarrow> \<not> freeMode w \<Longrightarrow> \<not> isMobile w \<Longrightarrow> id_d (data e) = id_l l \<Longrightarrow>
     step (StepEnter e) w = commit w (w\<lparr>activeLayer := l, visibleId := Some (id_l l)\<rparr>)"
  by (simp add: handleStepEnter_catalog)

lemma step_SelectChapter_catalog:
  "l \<in> set LAYERS \<Longrightarrow> freeMode w \<Longrightarrow>
     step (SelectChapter (id_l l)) w = commit w (w\<lparr>activeLayer := l\<rparr>)"
  by (simp add: selectChapter_catalog)

section \<open>The camera calls of the effects\<close>

lemma calls_spinGlobe: "calls (spinGlobe False m) = calls m @ rotation_step m"
  by (simp add: rotation_step_def spinGlobe_def easeTo_def Let_def)

lemma rotation_step_eq:
  "rotation_step m =
     (if 5 \<le> getZoom m then []
      else [EaseTo \<lparr>ease_center = \<lparr>lng = fsub (lng (getCenter m))
                                            (distancePerSecond (getZoom m)),
                                    lat = lat (getCenter m)\<rparr>,
                     ease_duration = 1000, ease_easing = (\<lambda>n. n), ease_essential = True\<rparr>])"
  by (simp add: rotation_step_def spinGlobe_def easeTo_def getCenter_def maxSpinZoom_def
      spinEnabled_def Let_def)

lemma rotation_step_on [simp]: "rotation_step (on ev h m) = rotation_step m"
  by (simp add: rotation_step_eq getZoom_def getCenter_def on_def)

lemma rotation_step_no_flyTo [simp]: "filter is_FlyTo (rotation_step m) = []"
  by (simp add: rotation_step_eq)

lemma new_calls_append: "calls_of w' = calls_of w @ cs \<Longrightarrow> new_calls w w' = cs"
  by (simp add: new_calls_def)

lemma calls_of_run_cleanup:
  "calls_of (run_cleanup w) =
     calls_of w @ (if cleanup w \<noteq> None \<and> mapRef w \<noteq> None then [Stop] else [])"
  by (auto simp: run_cleanup_def calls_of_def with_map_def Let_def split: option.splits)

lemma calls_of_rotation_effect:
  "calls_of (rotation_effect w) =
     calls_of w @
       (if mapLoaded w \<and> mapRef w \<noteq> None
        then (if id_l (activeLayer w) \<noteq> ''intro-globe'' then [Stop] else spin_calls w)
        else [])"
  by (auto simp: rotation_effect_def calls_of_def spin_calls_def Let_def calls_spinGlobe
      split: option.splits)

lemma calls_of_flyTo_effect:
  "calls_of (flyTo_effect w) =
     calls_of w @ (if mapRef w = None then [] else [FlyTo (flyTo_options (activeLayer w))])"
  by (auto simp: flyTo_effect_def calls_of_def split: option.splits)

lemma calls_of_update [simp]:
  "calls_of (w\<lparr>activeLayer := l\<rparr>) = calls_of w"
  "calls_of (w\<lparr>visibleId := v\<rparr>) = calls_of w"
  "calls_of (w\<lparr>freeMode := f\<rparr>) = calls_of w"
  by (simp_all add: calls_of_def)

lemma spin_calls_no_flyTo [simp]: "filter is_FlyTo (spin_calls w) = []"
  by (simp add: spin_calls_def split: option.splits)

section \<open>Leaving the intro chapter, pausing and resuming\<close>

lemma consistent_intro:
  assumes "consistent w" and "mapLoaded w" and "id_l (activeLayer w) = ''intro-globe''"
  obtains g m where "cleanup w = Some g" and "mapRef w = Some m"
    and "listeners m = rotation_listeners g"
  using assms by (auto simp: consistent_def listeners_of_def split: option.splits)

lemma consistent_elsewhere:
  assumes "consistent w" and "id_l (activeLayer w) \<noteq> ''intro-globe''"
  shows "listeners_of w = []" and "cleanup w = None"
  using assms by (auto simp: consistent_def split: option.splits)

lemma commit_leave_intro:
  assumes "consistent w" and "mapLoaded w" and "id_l (activeLayer w) = ''intro-globe''"
    and "id_l l \<noteq> ''intro-globe''"
  shows "new_calls w (commit w (w\<lparr>activeLayer := l, visibleId := v\<rparr>)) =
    [Stop, Stop, FlyTo (flyTo_options l)]"
proof -
  from assms(1-3) obtain g m where g: "cleanup w = Some g" and m: "mapRef w = Some m"
    by (rule consistent_intro)
  let ?w' = "w\<lparr>activeLayer := l, visibleId := v\<rparr>"
  from assms(3,4) have ne: "id_l l \<noteq> id_l (activeLayer w)" "l \<noteq> activeLayer w"
    by auto
  have "calls_of (run_cleanup ?w') = calls_of w @ [Stop]"
    using g m by (simp add: calls_of_run_cleanup)
  then have "calls_of (rotation_effect (run_cleanup ?w')) = calls_of w @ [Stop, Stop]"
    using assms(2,4) m by (simp add: calls_of_rotation_effect)
  then have "calls_of (flyTo_effect (rotation_effect (run_cleanup ?w'))) =
      calls_of w @ [Stop, Stop, FlyTo (flyTo_options l)]"
    using m by (simp add: calls_of_flyTo_effect)
  with ne have "calls_of (commit w ?w') = calls_of w @ [Stop, Stop, FlyTo (flyTo_options l)]"
    by (simp add: commit_def Let_def)
  then show ?thesis
    by (rule new_calls_append)
qed

lemma fire_rotation:
  assumes "mapRef w = Some m" and "listeners m = rotation_listeners g"
  shows "fire mousedown w =
      w\<lparr>userInteracting := (userInteracting w)(g := True), mapRef := Some (stop m)\<rparr>"
    and "ev \<in> {mouseup, dragend, pitchend, rotateend} \<Longrightarrow> fire ev w =
      w\<lparr>userInteracting := (userInteracting w)(g := False),
        mapRef := Some (spinGlobe False m)\<rparr>"
    and "fire moveend w = w\<lparr>mapRef := Some (spinGlobe (userInteracting w g) m)\<rparr>"
  using assms by (auto simp: fire_def rotation_listeners_def with_map_def Let_def)

lemma onLoad_fields [simp]:
  "freeMode (onLoad w) = freeMode w" "isMobile (onLoad w) = isMobile w"
  "mapLoaded (onLoad w)" "visibleId (onLoad w) = visibleId w"
  by (simp_all add: onLoad_def ref_callback_def split: option.splits)

lemma loaded_intro_state:
  "activeLayer (run [MapLoad] (mount False)) = LAYERS ! 0"
  "mapLoaded (run [MapLoad] (mount False))"
  "\<not> freeMode (run [MapLoad] (mount False))"
  "\<not> isMobile (run [MapLoad] (mount False))"
  by (simp_all add: mount_eq initial_simps)

lemma first_rotation_step: "fsub 0 (distancePerSecond 2) = - 3"
  using rnd_of_int [of 3] by (simp add: distancePerSecond_examples fsub_def rnd_minus)

lemma loaded_intro:
  "run [MapLoad] (mount False) =
     \<lparr>activeLayer = LAYERS ! 0, visibleId = None, freeMode = False, isMobile = False,
      mapRef = Some \<lparr>map_zoom = 2, map_center = \<lparr>lng = 0, lat = 0\<rparr>,
           listeners = rotation_listeners 0,
           calls = [EaseTo \<lparr>ease_center = \<lparr>lng = - 3, lat = 0\<rparr>, ease_duration = 1000,
                            ease_easing = (\<lambda>n. n), ease_essential = True\<rparr>]\<rparr>,
      mapLoaded = True, userInteracting = (\<lambda>_. False), runs = 1, cleanup = Some 0\<rparr>"
  using intro_layer(2,3)
  by (simp add: mount_eq initial_def commit_def onLoad_def ref_callback_def run_cleanup_def
      rotation_effect_def new_map_def on_def rotation_listeners_def spinGlobe_def easeTo_def
      getZoom_def getCenter_def first_rotation_step maxSpinZoom_def spinEnabled_def Let_def
      fun_upd_idem)

lemma left_intro:
  fixes e :: 'entry
  shows "run [MapLoad, StepEnter
      \<lparr>data = \<lparr>id_d = ''total-methane''\<rparr>, direction = down, entry = e, index = 1\<rparr>]
      (mount False) =
     \<lparr>activeLayer = LAYERS ! 1, visibleId = Some ''total-methane'', freeMode = False,
      isMobile = False,
      mapRef = Some \<lparr>map_zoom = 2, map_center = \<lparr>lng = 0, lat = 0\<rparr>,
           listeners = [],
           calls = [EaseTo \<lparr>ease_center = \<lparr>lng = - 3, lat = 0\<rparr>, ease_duration = 1000,
                            ease_easing = (\<lambda>n. n), ease_essential = True\<rparr>,
                    Stop, Stop, FlyTo (flyTo_options (LAYERS ! 1))]\<rparr>,
      mapLoaded = True, userInteracting = (\<lambda>_. False), runs = 1, cleanup = None\<rparr>"
proof -
  let ?e = "\<lparr>data = \<lparr>id_d = ''total-methane''\<rparr>, direction = down, entry = e, index = 1\<rparr>"
  let ?w = "run [MapLoad :: 'entry event] (mount False)"
  have ne: "LAYERS ! 1 \<noteq> LAYERS ! 0"
    using methane_layer(2) intro_layer(2) by auto
  have "run [MapLoad, StepEnter ?e] (mount False) = step (StepEnter ?e) ?w"
    by (simp del: step.simps)
  also have "\<dots> = commit ?w (?w\<lparr>activeLayer := LAYERS ! 1, visibleId := Some (id_l (LAYERS ! 1))\<rparr>)"
    using methane_layer
    by (intro step_StepEnter_catalog) (simp_all add: loaded_intro del: run.simps)
  also have "\<dots> = \<lparr>activeLayer = LAYERS ! 1, visibleId = Some ''total-methane'', freeMode = False,
      isMobile = False,
      mapRef = Some \<lparr>map_zoom = 2, map_center = \<lparr>lng = 0, lat = 0\<rparr>,
           listeners = [],
           calls = [EaseTo \<lparr>ease_center = \<lparr>lng = - 3, lat = 0\<rparr>, ease_duration = 1000,
                            ease_easing = (\<lambda>n. n), ease_essential = True\<rparr>,
                    Stop, Stop, FlyTo (flyTo_options (LAYERS ! 1))]\<rparr>,
      mapLoaded = True, userInteracting = (\<lambda>_. False), runs = 1, cleanup = None\<rparr>"
    using methane_layer(2) intro_layer(2) ne
    by (simp add: loaded_intro commit_def run_cleanup_def rotation_effect_def flyTo_effect_def
        with_map_def off_def stop_def flyTo_def rotation_listeners_def Let_def
        del: run.simps)
  finally show ?thesis .
qed

lemma loaded_intro_map:
  "mapRef (run [MapLoad] (mount False)) =
     Some \<lparr>map_zoom = 2, map_center = \<lparr>lng = 0, lat = 0\<rparr>,
           listeners = rotation_listeners 0,
           calls = [EaseTo \<lparr>ease_center = \<lparr>lng = - 3, lat = 0\<rparr>, ease_duration = 1000,
                            ease_easing = (\<lambda>n. n), ease_essential = True\<rparr>]\<rparr>"
  by (simp only: loaded_intro StoryMap.simps)

lemma step_StepEnter_fields:
  assumes "l \<in> set LAYERS" and "\<not> freeMode w" and "\<not> isMobile w" and "id_d (data e) = id_l l"
  shows "activeLayer (step (StepEnter e) w) = l"
    and "freeMode (step (StepEnter e) w) = freeMode w"
    and "isMobile (step (StepEnter e) w) = isMobile w"
    and "mapLoaded (step (StepEnter e) w) = mapLoaded w"
  using assms by (simp_all add: handleStepEnter_catalog)

lemma loaded_intro_paused: "\<not> paused (run [MapLoad] (mount False))"
  using intro_layer(2)
  by (simp add: paused_def mount_eq initial_def commit_def onLoad_def ref_callback_def
      run_cleanup_def rotation_effect_def new_map_def Let_def)

section \<open>Chapter lookups that miss\<close>

text \<open>
  C1. For a chapter id that no catalog entry has, a step-entered notification carrying it
  and a selection of it in the picker both leave the whole state of the component as it
  was, \<open>activeLayer\<close> and \<open>visibleId\<close> included, and no effect runs.
\<close>

theorem unknown_chapter_is_noop:
  fixes e :: "'entry StepEnterEvent"
  assumes "chapterId \<notin> set (map id_l LAYERS)" and "id_d (data e) = chapterId"
  shows "handleStepEnter e w = w \<and> selectChapter chapterId w = w
    \<and> step (StepEnter e) w = w \<and> step (SelectChapter chapterId :: 'entry event) w = w"
  using assms
  by (simp add: handleStepEnter_def selectChapter_def find_LAYERS_None map_of_picker_None
      commit_same)

theorem unknown_chapter_is_noop_witness:
  "''atlantis'' \<notin> set (map id_l LAYERS)
   \<and> handleStepEnter
       \<lparr>data = \<lparr>id_d = ''atlantis''\<rparr>, direction = down, entry = (), index = 3\<rparr>
       (mount False) = mount False
   \<and> selectChapter ''atlantis'' (mount True) = mount True"
proof -
  let ?e = "\<lparr>data = \<lparr>id_d = ''atlantis''\<rparr>, direction = down, entry = (), index = 3\<rparr>"
  have h: "''atlantis'' \<notin> set (map id_l LAYERS)"
    by (simp add: LAYERS_ids)
  have d: "id_d (data ?e) = ''atlantis''"
    by simp
  show ?thesis
    using h unknown_chapter_is_noop [OF h d, of "mount False"]
      unknown_chapter_is_noop [OF h d, of "mount True"]
    by simp
qed

section \<open>Free mode gates the scroll events\<close>

text \<open>
  C2. In free mode a step-entered notification changes nothing, whatever chapter id it
  carries: the handler returns the state as it is, and so does the whole event.
\<close>

theorem freeMode_ignores_stepEnter:
  "freeMode w \<Longrightarrow> handleStepEnter e w = w \<and> step (StepEnter e) w = w"
  by (simp add: handleStepEnter_def)

theorem freeMode_ignores_stepEnter_witness:
  "freeMode (toggleFreeMode (mount False))
   \<and> handleStepEnter
       \<lparr>data = \<lparr>id_d = ''total-methane''\<rparr>, direction = down, entry = (), index = 1\<rparr>
       (toggleFreeMode (mount False)) = toggleFreeMode (mount False)"
proof -
  have h: "freeMode (toggleFreeMode (mount False))"
    by (simp add: toggleFreeMode_def mount_eq initial_simps)
  show ?thesis
    using h freeMode_ignores_stepEnter [OF h,
        of "\<lparr>data = \<lparr>id_d = ''total-methane''\<rparr>, direction = down, entry = (), index = 1\<rparr>"]
    by simp
qed

section \<open>Selecting a chapter and advancing to it\<close>

text \<open>
  C5, as the claim states it, fails: after a scroll step into a chapter \<open>visibleId\<close> is that
  chapter's id, after the selection of the same chapter in the picker it is what it was.
\<close>

theorem select_differs_from_advance:
  "visibleId (selectChapter ''total-methane'' (toggleFreeMode (mount False))) = None
   \<and> visibleId (handleStepEnter
        \<lparr>data = \<lparr>id_d = ''total-methane''\<rparr>, direction = down, entry = (), index = 1\<rparr>
        (mount False)) = Some ''total-methane''"
proof -
  let ?l = "LAYERS ! 1"
  have mem: "?l \<in> set LAYERS" and key: "id_l ?l = ''total-methane''"
    by (simp_all add: nth_LAYERS_mem id_l_nth_LAYERS)
  have "selectChapter (id_l ?l) (toggleFreeMode (mount False))
      = (toggleFreeMode (mount False))\<lparr>activeLayer := ?l\<rparr>"
    by (rule selectChapter_catalog [OF mem]) (simp add: toggleFreeMode_def mount_eq initial_simps)
  moreover have "handleStepEnter
        \<lparr>data = \<lparr>id_d = ''total-methane''\<rparr>, direction = down, entry = (), index = 1\<rparr>
        (mount False) = (mount False)\<lparr>activeLayer := ?l, visibleId := Some (id_l ?l)\<rparr>"
    using key by (intro handleStepEnter_catalog [OF mem]) (simp_all add: mount_eq initial_simps)
  ultimately show ?thesis
    using key by (simp add: toggleFreeMode_def mount_eq initial_simps)
qed

text \<open>
  C5, amended. For a catalog entry \<open>l\<close>, a scroll step into \<open>id_l l\<close> in story mode and the
  selection of \<open>id_l l\<close> in free mode both make \<open>l\<close> the active layer and leave \<open>freeMode\<close>
  as it is; the scroll step sets \<open>visibleId\<close> to the id, the selection leaves \<open>visibleId\<close>
  unchanged.
\<close>

theorem select_and_advance:
  assumes "l \<in> set LAYERS" and "id_d (data e) = id_l l" and "\<not> freeMode w0" and "freeMode w1"
  shows "activeLayer (handleStepEnter e w0) = l
    \<and> activeLayer (selectChapter (id_l l) w1) = l
    \<and> visibleId (handleStepEnter e w0) = Some (id_l l)
    \<and> visibleId (selectChapter (id_l l) w1) = visibleId w1
    \<and> freeMode (handleStepEnter e w0) = freeMode w0
    \<and> freeMode (selectChapter (id_l l) w1) = freeMode w1"
  using assms by (simp add: handleStepEnter_catalog selectChapter_catalog)

theorem select_and_advance_witness:
  "LAYERS ! 5 \<in> set LAYERS \<and> \<not> freeMode (mount False) \<and> freeMode (mount True)
   \<and> activeLayer (handleStepEnter
        \<lparr>data = \<lparr>id_d = ''grdi-v1''\<rparr>, direction = up, entry = (), index = 5\<rparr>
        (mount False)) = LAYERS ! 5
   \<and> activeLayer (selectChapter ''grdi-v1'' (mount True)) = LAYERS ! 5
   \<and> visibleId (selectChapter ''grdi-v1'' (mount True)) = None"
proof -
  let ?e = "\<lparr>data = \<lparr>id_d = ''grdi-v1''\<rparr>, direction = up, entry = (), index = 5\<rparr>"
  have mem: "LAYERS ! 5 \<in> set LAYERS" and key: "id_l (LAYERS ! 5) = ''grdi-v1''"
    by (simp_all add: nth_LAYERS_mem id_l_nth_LAYERS)
  have d: "id_d (data ?e) = id_l (LAYERS ! 5)"
    by (simp add: key)
  have s: "\<not> freeMode (mount False)" and f: "freeMode (mount True)"
    by (simp_all add: mount_eq initial_simps)
  show ?thesis
    using mem s f select_and_advance [OF mem d s f]
    by (simp add: key mount_eq initial_simps)
qed

section \<open>Toggling free mode\<close>

text \<open>
  C9. The handler of the toggle buttons negates \<open>freeMode\<close> and changes no other component
  of the state; the click as a whole (the buttons exist off mobile devices only) runs no
  effect, so \<open>activeLayer\<close> and \<open>visibleId\<close> are what they were before.
\<close>

theorem toggleFreeMode_frame:
  "freeMode (toggleFreeMode w) = (\<not> freeMode w)
   \<and> (toggleFreeMode w)\<lparr>freeMode := freeMode w\<rparr> = w
   \<and> activeLayer (toggleFreeMode w) = activeLayer w
   \<and> visibleId (toggleFreeMode w) = visibleId w
   \<and> step (ToggleFreeMode :: 'entry event) w = (if isMobile w then w else toggleFreeMode w)
   \<and> activeLayer (step (ToggleFreeMode :: 'entry event) w) = activeLayer w
   \<and> visibleId (step (ToggleFreeMode :: 'entry event) w) = visibleId w"
  by (simp add: toggleFreeMode_def commit_def)

theorem toggleFreeMode_frame_witness:
  "freeMode (toggleFreeMode (mount False))
   \<and> activeLayer (step (ToggleFreeMode :: unit event) (mount False)) = LAYERS ! 0
   \<and> visibleId (step (ToggleFreeMode :: unit event) (mount False)) = None"
  using toggleFreeMode_frame [of "mount False"]
  by (simp add: mount_eq initial_simps)

section \<open>Direction and index of a scroll step\<close>

text \<open>
  C10. Two step-entered events with the same payload, delivered in the same state, give the
  same state: the direction, the index and the observer entry of the event are not read.
\<close>

theorem stepEnter_payload_only:
  "data e1 = data e2 \<Longrightarrow>
     handleStepEnter e1 w = handleStepEnter e2 w
     \<and> step (StepEnter e1) w = step (StepEnter e2) w"
  by (simp add: handleStepEnter_def split: option.splits)

theorem stepEnter_payload_only_witness:
  "handleStepEnter
     \<lparr>data = \<lparr>id_d = ''geoglam''\<rparr>, direction = up, entry = (), index = 0\<rparr> (mount False)
   = handleStepEnter
     \<lparr>data = \<lparr>id_d = ''geoglam''\<rparr>, direction = down, entry = (), index = 4\<rparr> (mount False)
   \<and> step (StepEnter \<lparr>data = \<lparr>id_d = ''geoglam''\<rparr>, direction = up, entry = (), index = 0\<rparr>)
       (mount False)
   = step (StepEnter \<lparr>data = \<lparr>id_d = ''geoglam''\<rparr>, direction = down, entry = (), index = 4\<rparr>)
       (mount False)"
  using stepEnter_payload_only
    [of "\<lparr>data = \<lparr>id_d = ''geoglam''\<rparr>, direction = up, entry = (), index = 0\<rparr>"
        "\<lparr>data = \<lparr>id_d = ''geoglam''\<rparr>, direction = down, entry = (), index = 4\<rparr>"
        "mount False"]
  by simp

section \<open>The rotation step\<close>

text \<open>
  C3, as the claim states it, fails in two places, both by rounding. At zoom \<open>5 - 2\<^sup>-\<^sup>5\<^sup>0\<close>,
  the double next below 5, and longitude -74 a step is scheduled, but the increment
  \<open>3 \<sqdot> 2\<^sup>-\<^sup>5\<^sup>1\<close> is less than half the spacing of the doubles around -74: the step's target
  longitude is -74 again, not west of it. At zoom \<open>3 + 2\<^sup>-\<^sup>5\<^sup>1\<close>, the double next above 3, the
  increment is \<open>3 - 2\<^sup>-\<^sup>5\<^sup>0\<close>, which is not 3 scaled by \<open>(5 - zoom) / (5 - 3)\<close>.
\<close>

theorem rotation_step_rounds:
  "is_double (5 - pow2 (- 50)) \<and> 5 - pow2 (- 50) < 5 \<and> is_double (- 74)
   \<and> 0 < distancePerSecond (5 - pow2 (- 50))
   \<and> calls (spinGlobe False
        \<lparr>map_zoom = 5 - pow2 (- 50), map_center = \<lparr>lng = - 74, lat = 0\<rparr>,
         listeners = [], calls = []\<rparr>) =
       [EaseTo \<lparr>ease_center = \<lparr>lng = - 74, lat = 0\<rparr>, ease_duration = 1000,
                 ease_easing = id, ease_essential = True\<rparr>]
   \<and> is_double (3 + pow2 (- 51)) \<and> 3 < 3 + pow2 (- 51) \<and> 3 + pow2 (- 51) < 5
   \<and> distancePerSecond (3 + pow2 (- 51)) = 3 - pow2 (- 50)
   \<and> 3 * ((5 - (3 + pow2 (- 51))) / (5 - 3)) = 3 - 3 * pow2 (- 52)
   \<and> distancePerSecond (3 + pow2 (- 51)) \<noteq> 3 * ((5 - (3 + pow2 (- 51))) / (5 - 3))"
proof -
  have "calls (spinGlobe False
        \<lparr>map_zoom = 5 - pow2 (- 50), map_center = \<lparr>lng = - 74, lat = 0\<rparr>,
         listeners = [], calls = []\<rparr>) =
       [EaseTo \<lparr>ease_center = \<lparr>lng = - 74, lat = 0\<rparr>, ease_duration = 1000,
                 ease_easing = id, ease_essential = True\<rparr>]"
    by (simp add: spinGlobe_def easeTo_def getZoom_def getCenter_def maxSpinZoom_def
        spinEnabled_def Let_def distancePerSecond_examples absorbed_increment not_le id_def)
  moreover have "5 - pow2 (- 50) < 5" "3 < 3 + pow2 (- 51)" "3 + pow2 (- 51) < 5"
    "0 < 3 * pow2 (- 51)" "3 * ((5 - (3 + pow2 (- 51))) / (5 - 3)) = 3 - 3 * pow2 (- 52)"
    "3 - pow2 (- 50) \<noteq> 3 - 3 * pow2 (- 52)"
    by (simp_all add: pow2_def)
  ultimately show ?thesis
    using is_double_examples(1-3) by (simp only: distancePerSecond_examples simp_thms)
qed

text \<open>
  C3, amended. For a map whose zoom and longitude are doubles, a rotation step of the
  spinning globe (\<open>spinGlobe\<close> with \<open>userInteracting\<close> false) issues nothing at zoom 5 or
  more; below zoom 5 it issues exactly one \<open>easeTo\<close>, over 1000 ms with the identity as
  easing, whose target longitude is the double nearest to the current longitude minus the
  increment for the current zoom. The increment is positive, so the target is never east of
  the current longitude, and it is strictly west of it at least for every zoom up to 4 and
  every longitude of magnitude up to \<open>2\<^sup>5\<^sup>2\<close>. For a zoom strictly between 3 and 5 the
  increment is the double nearest to 3 scaled by \<open>(5 - zoom) / (5 - 3)\<close>, strictly between 0
  and 3; for a zoom of 3 or less it is \<open>360 / 120 = 3\<close>.
\<close>

theorem spinGlobe_step:
  assumes "is_double (getZoom m)" and "is_double (lng (getCenter m))"
  shows "(5 \<le> getZoom m \<longrightarrow> spinGlobe False m = m) \<and>
   (getZoom m < 5 \<longrightarrow>
      calls (spinGlobe False m) = calls m @
        [EaseTo \<lparr>ease_center =
                   \<lparr>lng = rnd (lng (getCenter m) - distancePerSecond (getZoom m)),
                    lat = lat (getCenter m)\<rparr>,
                 ease_duration = 1000, ease_easing = (\<lambda>n. n), ease_essential = True\<rparr>]
      \<and> 0 < distancePerSecond (getZoom m)
      \<and> rnd (lng (getCenter m) - distancePerSecond (getZoom m)) \<le> lng (getCenter m)) \<and>
   (getZoom m \<le> 4 \<and> \<bar>lng (getCenter m)\<bar> \<le> 2 ^ 52 \<longrightarrow>
      rnd (lng (getCenter m) - distancePerSecond (getZoom m)) < lng (getCenter m)) \<and>
   (3 < getZoom m \<and> getZoom m < 5 \<longrightarrow>
      distancePerSecond (getZoom m) = rnd (3 * ((5 - getZoom m) / (5 - 3)))
      \<and> 0 < distancePerSecond (getZoom m) \<and> distancePerSecond (getZoom m) < 3) \<and>
   (getZoom m \<le> 3 \<longrightarrow>
      distancePerSecond (getZoom m) = rnd (360 / 120) \<and> distancePerSecond (getZoom m) = 3)"
proof -
  let ?z = "getZoom m" and ?c = "lng (getCenter m)"
  have stop: "5 \<le> ?z \<longrightarrow> spinGlobe False m = m"
    by (simp add: spinGlobe_def maxSpinZoom_def Let_def)
  have slow: "distancePerSecond ?z = rnd (360 / 120) \<and> distancePerSecond ?z = 3" if "?z \<le> 3"
    using that by (simp add: distancePerSecond_slow)
  have scaled: "distancePerSecond ?z = rnd (3 * ((5 - ?z) / (5 - 3)))
      \<and> 0 < distancePerSecond ?z \<and> distancePerSecond ?z < 3" if "3 < ?z \<and> ?z < 5"
  proof -
    from that have z: "3 < ?z" "?z < 5"
      by simp_all
    note d = distancePerSecond_scaled [OF assms(1) z]
    have "0 < 3 * pow2 (- 51)" and "3 - pow2 (- 51) < 3"
      by simp_all
    with d(2,3) have "0 < distancePerSecond ?z" and "distancePerSecond ?z < 3"
      by linarith+
    with d(1) show ?thesis
      by simp
  qed
  have pos: "0 < distancePerSecond ?z" if "?z < 5"
  proof (cases "?z \<le> 3")
    case True
    then show ?thesis by (simp add: distancePerSecond_slow)
  next
    case False
    with that scaled show ?thesis by simp
  qed
  have step: "calls (spinGlobe False m) = calls m @
        [EaseTo \<lparr>ease_center = \<lparr>lng = rnd (?c - distancePerSecond ?z), lat = lat (getCenter m)\<rparr>,
                 ease_duration = 1000, ease_easing = (\<lambda>n. n), ease_essential = True\<rparr>]
      \<and> 0 < distancePerSecond ?z \<and> rnd (?c - distancePerSecond ?z) \<le> ?c" if "?z < 5"
  proof -
    from pos [OF that] have "fsub ?c (distancePerSecond ?z) \<le> ?c"
      by (intro fsub_not_east assms(2)) simp
    with that pos [OF that] show ?thesis
      by (simp add: spinGlobe_def easeTo_def maxSpinZoom_def spinEnabled_def Let_def fsub_def)
  qed
  have west: "rnd (?c - distancePerSecond ?z) < ?c" if "?z \<le> 4 \<and> \<bar>?c\<bar> \<le> 2 ^ 52"
  proof -
    from that have "1 \<le> distancePerSecond ?z"
      by (intro distancePerSecond_ge_1 assms(1)) simp
    with that have "fsub ?c (distancePerSecond ?z) < ?c"
      by (intro fsub_west) simp_all
    then show ?thesis
      by (simp add: fsub_def)
  qed
  from stop step west scaled slow show ?thesis
    by blast
qed

theorem spinGlobe_step_witness:
  "is_double (getZoom (new_map\<lparr>map_zoom := 6\<rparr>))
   \<and> is_double (getZoom (new_map\<lparr>map_zoom := 4\<rparr>))
   \<and> is_double (getZoom new_map) \<and> is_double (lng (getCenter new_map))
   \<and> spinGlobe False (new_map\<lparr>map_zoom := 6\<rparr>) = new_map\<lparr>map_zoom := 6\<rparr>
   \<and> calls (spinGlobe False (new_map\<lparr>map_zoom := 4\<rparr>)) =
       [EaseTo \<lparr>ease_center = \<lparr>lng = - (3 / 2), lat = 0\<rparr>,
                ease_duration = 1000, ease_easing = (\<lambda>n. n), ease_essential = True\<rparr>]
   \<and> distancePerSecond 4 = 3 / 2
   \<and> calls (spinGlobe False new_map) =
       [EaseTo \<lparr>ease_center = \<lparr>lng = - 3, lat = 0\<rparr>,
                ease_duration = 1000, ease_easing = (\<lambda>n. n), ease_essential = True\<rparr>]
   \<and> distancePerSecond 2 = 3"
proof -
  have m: "getZoom new_map = 2" "lng (getCenter new_map) = 0" "lat (getCenter new_map) = 0"
    "calls new_map = []"
    using intro_layer(3) by (simp_all add: getZoom_def getCenter_def new_map_def initial_simps)
  have z: "getZoom (new_map\<lparr>map_zoom := 6\<rparr>) = 6" "getZoom (new_map\<lparr>map_zoom := 4\<rparr>) = 4"
    "getCenter (new_map\<lparr>map_zoom := 6\<rparr>) = getCenter new_map"
    "getCenter (new_map\<lparr>map_zoom := 4\<rparr>) = getCenter new_map"
    by (simp_all add: getZoom_def getCenter_def)
  have d: "is_double (getZoom (new_map\<lparr>map_zoom := 6\<rparr>))"
    "is_double (getZoom (new_map\<lparr>map_zoom := 4\<rparr>))"
    "is_double (getZoom new_map)" "is_double (lng (getCenter new_map))"
    by (simp_all only: m z is_double_examples)
  have r: "rnd (- (3 / 2)) = - (3 / 2)" "rnd (- 3) = - 3"
    using rnd_representable [of 3 "- 1"] rnd_of_int [of 3]
    by (simp_all add: rnd_minus pow2_def)
  from spinGlobe_step [of "new_map\<lparr>map_zoom := 6\<rparr>"]
    spinGlobe_step [of "new_map\<lparr>map_zoom := 4\<rparr>"] spinGlobe_step [OF d(3,4)] d
  show ?thesis
    by (simp add: m z r distancePerSecond_examples)
qed

section \<open>Listeners of the rotation effect\<close>

text \<open>
  C4. In every state the component can reach: outside the intro chapter no listener is
  registered on the map; in the intro chapter with the map loaded exactly one listener is
  registered for each of mousedown, mouseup, dragend, pitchend, rotateend and moveend; and an
  event that leaves the intro chapter from there ends with an empty registry and no pending
  cleanup, having issued \<open>stop\<close> twice and then the \<open>flyTo\<close> to the new chapter, and no
  rotation step. As the first part holds after every sequence of events, entering and
  leaving the intro chapter any number of times leaves no listener behind.
\<close>

theorem rotation_listeners_released:
  fixes evs :: "'entry event list" and mobile :: bool and ev :: "'entry event"
  defines "w \<equiv> run evs (mount mobile)"
  shows "(id_l (activeLayer w) \<noteq> ''intro-globe'' \<longrightarrow> listeners_of w = [])
    \<and> (id_l (activeLayer w) = ''intro-globe'' \<and> mapLoaded w \<longrightarrow>
          map fst (listeners_of w) = [mousedown, mouseup, dragend, pitchend, rotateend, moveend])
    \<and> (id_l (activeLayer w) = ''intro-globe'' \<and> mapLoaded w
        \<and> id_l (activeLayer (step ev w)) \<noteq> ''intro-globe'' \<longrightarrow>
          listeners_of (step ev w) = [] \<and> cleanup (step ev w) = None
          \<and> new_calls w (step ev w) =
              [Stop, Stop, FlyTo (flyTo_options (activeLayer (step ev w)))])"
proof -
  have c: "consistent w"
    by (simp add: w_def consistent_reachable)
  then have c': "consistent (step ev w)"
    by (rule consistent_step)
  have outside: "id_l (activeLayer w) \<noteq> ''intro-globe'' \<longrightarrow> listeners_of w = []"
    using consistent_elsewhere(1) [OF c] by simp
  have inside: "map fst (listeners_of w) =
      [mousedown, mouseup, dragend, pitchend, rotateend, moveend]"
    if "id_l (activeLayer w) = ''intro-globe'' \<and> mapLoaded w"
  proof -
    from c that obtain g m where "mapRef w = Some m" and "listeners m = rotation_listeners g"
      by (auto elim: consistent_intro)
    then show ?thesis
      by (simp add: listeners_of_def rotation_listeners_def)
  qed
  have leave: "listeners_of (step ev w) = [] \<and> cleanup (step ev w) = None
      \<and> new_calls w (step ev w) = [Stop, Stop, FlyTo (flyTo_options (activeLayer (step ev w)))]"
    if h: "id_l (activeLayer w) = ''intro-globe'' \<and> mapLoaded w
        \<and> id_l (activeLayer (step ev w)) \<noteq> ''intro-globe''"
  proof -
    from h have i: "id_l (activeLayer w) = ''intro-globe''" and ld: "mapLoaded w"
      and o: "id_l (activeLayer (step ev w)) \<noteq> ''intro-globe''"
      by simp_all
    have "new_calls w (step ev w) =
        [Stop, Stop, FlyTo (flyTo_options (activeLayer (step ev w)))]"
    proof (cases ev)
      case (StepEnter e)
      with i o have s: "step ev w = commit w (handleStepEnter e w)"
        by (auto split: if_splits)
      from handleStepEnter_shape [of w e] obtain l v
        where e: "handleStepEnter e w = w\<lparr>activeLayer := l, visibleId := v\<rparr>"
        by blast
      with s o have "id_l l \<noteq> ''intro-globe''" and "activeLayer (step ev w) = l"
        by simp_all
      with commit_leave_intro [OF c ld i, of l v] s e show ?thesis
        by simp
    next
      case (SelectChapter ch)
      then have s: "step ev w = commit w (selectChapter ch w)"
        by simp
      from selectChapter_shape [of w ch] obtain l
        where "selectChapter ch w = w\<lparr>activeLayer := l\<rparr>"
        by blast
      then have e: "selectChapter ch w = w\<lparr>activeLayer := l, visibleId := visibleId w\<rparr>"
        by simp
      with s o have "id_l l \<noteq> ''intro-globe''" and "activeLayer (step ev w) = l"
        by simp_all
      with commit_leave_intro [OF c ld i, of l "visibleId w"] s e show ?thesis
        by simp
    next
      case ToggleFreeMode
      with i o show ?thesis by (simp add: toggleFreeMode_def split: if_splits)
    next
      case MapCreated
      with i o show ?thesis by simp
    next
      case MapLoad
      with i o show ?thesis by simp
    next
      case (MapFire x)
      with i o show ?thesis by simp
    next
      case (CameraMoved z ce)
      with i o show ?thesis by simp
    qed
    with consistent_elsewhere [OF c' o] show ?thesis
      by simp
  qed
  from outside inside leave show ?thesis
    by blast
qed

theorem rotation_listeners_released_witness:
  "map fst (listeners_of (run [MapLoad :: unit event] (mount False))) =
     [mousedown, mouseup, dragend, pitchend, rotateend, moveend]
   \<and> new_calls (run [MapLoad :: unit event] (mount False))
        (run [MapLoad, StepEnter
          \<lparr>data = \<lparr>id_d = ''total-methane''\<rparr>, direction = down, entry = (), index = 1\<rparr>]
          (mount False)) = [Stop, Stop, FlyTo (flyTo_options (LAYERS ! 1))]
   \<and> listeners_of (run [MapLoad, StepEnter
          \<lparr>data = \<lparr>id_d = ''total-methane''\<rparr>, direction = down, entry = (), index = 1\<rparr>]
          (mount False)) = []
   \<and> map fst (listeners_of (run [MapLoad,
        StepEnter \<lparr>data = \<lparr>id_d = ''total-methane''\<rparr>, direction = down, entry = (), index = 1\<rparr>,
        StepEnter \<lparr>data = \<lparr>id_d = ''intro-globe''\<rparr>, direction = up, entry = (), index = 0\<rparr>]
        (mount False))) = [mousedown, mouseup, dragend, pitchend, rotateend, moveend]
   \<and> listeners_of (run [MapLoad,
        StepEnter \<lparr>data = \<lparr>id_d = ''total-methane''\<rparr>, direction = down, entry = (), index = 1\<rparr>,
        StepEnter \<lparr>data = \<lparr>id_d = ''intro-globe''\<rparr>, direction = up, entry = (), index = 0\<rparr>,
        StepEnter \<lparr>data = \<lparr>id_d = ''total-methane''\<rparr>, direction = down, entry = (), index = 1\<rparr>]
        (mount False)) = []"
proof -
  let ?e = "\<lparr>data = \<lparr>id_d = ''total-methane''\<rparr>, direction = down, entry = (), index = 1\<rparr>"
  let ?b = "\<lparr>data = \<lparr>id_d = ''intro-globe''\<rparr>, direction = up, entry = (), index = 0\<rparr>"
  let ?w1 = "run [MapLoad :: unit event] (mount False)"
  let ?w2 = "run [MapLoad, StepEnter ?e] (mount False)"
  let ?w3 = "run [MapLoad, StepEnter ?e, StepEnter ?b] (mount False)"
  let ?w4 = "run [MapLoad, StepEnter ?e, StepEnter ?b, StepEnter ?e] (mount False)"
  have w2: "?w2 = step (StepEnter ?e) ?w1" and w3: "?w3 = step (StepEnter ?b) ?w2"
    and w4: "?w4 = step (StepEnter ?e) ?w3"
    by (simp_all del: step.simps)
  have de: "id_d (data ?e) = id_l (LAYERS ! 1)" and db: "id_d (data ?b) = id_l (LAYERS ! 0)"
    using methane_layer(2) intro_layer(2) by simp_all
  have s1: "activeLayer ?w1 = LAYERS ! 0" "mapLoaded ?w1" "\<not> freeMode ?w1" "\<not> isMobile ?w1"
    by (rule loaded_intro_state)+
  note s2 = step_StepEnter_fields [OF methane_layer(1) s1(3,4) de, folded w2]
  have f2: "\<not> freeMode ?w2" "\<not> isMobile ?w2" "mapLoaded ?w2"
    using s1 by (simp_all only: s2 simp_thms)
  note s3 = step_StepEnter_fields [OF intro_layer(1) f2(1,2) db, folded w3]
  have f3: "\<not> freeMode ?w3" "\<not> isMobile ?w3" "mapLoaded ?w3"
    using f2 by (simp_all only: s3 simp_thms)
  note s4 = step_StepEnter_fields [OF methane_layer(1) f3(1,2) de, folded w4]
  have i1: "id_l (activeLayer ?w1) = ''intro-globe''"
    and o2: "id_l (activeLayer ?w2) \<noteq> ''intro-globe''"
    and i3: "id_l (activeLayer ?w3) = ''intro-globe''"
    and o4: "id_l (activeLayer ?w4) \<noteq> ''intro-globe''"
    using methane_layer(2) intro_layer(2) by (simp_all only: s1 s2 s3 s4) simp_all
  note r1 = rotation_listeners_released [of "[MapLoad]" False "StepEnter ?e", folded w2]
  note r2 = rotation_listeners_released [of "[MapLoad, StepEnter ?e]" False "StepEnter ?b"]
  note r3 = rotation_listeners_released
    [of "[MapLoad, StepEnter ?e, StepEnter ?b]" False "StepEnter ?e"]
  note r4 = rotation_listeners_released
    [of "[MapLoad, StepEnter ?e, StepEnter ?b, StepEnter ?e]" False "StepEnter ?e"]
  from r1 i1 s1(2) o2 s2(1) have
    "map fst (listeners_of ?w1) = [mousedown, mouseup, dragend, pitchend, rotateend, moveend]"
    and "new_calls ?w1 ?w2 = [Stop, Stop, FlyTo (flyTo_options (LAYERS ! 1))]"
    by (simp_all only: simp_thms)
  moreover from r2 o2 have "listeners_of ?w2 = []"
    by (simp only: simp_thms)
  moreover from r3 i3 f3(3) have
    "map fst (listeners_of ?w3) = [mousedown, mouseup, dragend, pitchend, rotateend, moveend]"
    by (simp only: simp_thms)
  moreover from r4 o4 have "listeners_of ?w4 = []"
    by (simp only: simp_thms)
  ultimately show ?thesis
    by (simp only: simp_thms)
qed

section \<open>The camera move on a change of chapter\<close>

lemma rotation_step_camera [simp]:
  "rotation_step (stop m) = rotation_step m"
  "rotation_step (off ev h m) = rotation_step m"
  by (simp_all add: rotation_step_eq getZoom_def getCenter_def stop_def off_def)

lemma spin_calls_run_cleanup [simp]: "spin_calls (run_cleanup w) = spin_calls w"
  by (simp add: spin_calls_def run_cleanup_def with_map_def Let_def split: option.splits)

lemma spin_calls_update [simp]:
  "spin_calls (w\<lparr>activeLayer := l\<rparr>) = spin_calls w"
  "spin_calls (w\<lparr>visibleId := v\<rparr>) = spin_calls w"
  by (simp_all add: spin_calls_def)

lemma spin_calls_moves: "filter is_move (spin_calls w) = spin_calls w"
  and spin_calls_length: "length (spin_calls w) \<le> 1"
  by (simp_all add: spin_calls_def rotation_step_eq split: option.splits)

lemma calls_of_noMap: "mapRef w = None \<Longrightarrow> calls_of w = []"
  by (simp add: calls_of_def)

lemma new_calls_setActive:
  assumes "l \<noteq> activeLayer w" and "mapRef w \<noteq> None"
  shows "new_calls w (commit w (w\<lparr>activeLayer := l, visibleId := v\<rparr>)) =
    (if id_l l \<noteq> id_l (activeLayer w)
     then (if cleanup w \<noteq> None then [Stop] else []) @
          (if mapLoaded w
           then (if id_l l \<noteq> ''intro-globe'' then [Stop] else spin_calls w) else [])
     else []) @ [FlyTo (flyTo_options l)]"
proof -
  let ?w' = "w\<lparr>activeLayer := l, visibleId := v\<rparr>"
  let ?rot = "if id_l l \<noteq> id_l (activeLayer w)
     then (if cleanup w \<noteq> None then [Stop] else []) @
          (if mapLoaded w
           then (if id_l l \<noteq> ''intro-globe'' then [Stop] else spin_calls w) else [])
     else []"
  let ?w1 = "if mapLoaded ?w' \<noteq> mapLoaded w \<or> id_l (activeLayer ?w') \<noteq> id_l (activeLayer w)
             then rotation_effect (run_cleanup ?w') else ?w'"
  have "calls_of ?w1 = calls_of w @ ?rot"
    using assms(2) by (simp add: calls_of_rotation_effect calls_of_run_cleanup)
  moreover have "mapRef ?w1 \<noteq> None" and "activeLayer ?w1 = l"
    using assms(2) by (simp_all del: not_None_eq)
  ultimately have "calls_of (commit w ?w') = calls_of w @ ?rot @ [FlyTo (flyTo_options l)]"
    using assms(1) by (simp add: commit_def Let_def calls_of_flyTo_effect)
  then show ?thesis
    by (rule new_calls_append)
qed

lemma new_calls_noMap:
  assumes "mapRef w = None" and "mapRef w' = None"
  shows "new_calls w (commit w w') = []"
proof -
  from assms(2) have "mapRef (commit w w') = None"
    by simp
  then show ?thesis
    by (simp add: new_calls_def calls_of_noMap)
qed

lemma cubic_ease_out_deriv:
  "((\<lambda>t. 1 - (1 - t) ^ 3) has_real_derivative 3 * (1 - t) ^ 2) (at t)"
  by (auto intro!: derivative_eq_intros)

lemma cubic_ease_out_slows:
  fixes s t :: real
  assumes "0 \<le> s" and "s \<le> t" and "t \<le> 1"
  shows "3 * (1 - t) ^ 2 \<le> 3 * (1 - s) ^ 2"
proof -
  from assms have "0 \<le> 1 - t" and "1 - t \<le> 1 - s"
    by simp_all
  then have "(1 - t) ^ 2 \<le> (1 - s) ^ 2"
    by (rule power_mono [rotated])
  then show ?thesis by simp
qed

text \<open>
  C6, as the claim states it, fails in both directions. Before the map instance exists the
  guard of the camera effect returns, so a change of chapter issues no camera move at all.
  And on the return to the intro chapter with the map loaded the rotation effect runs
  first and spins once: the change issues two animated camera moves, an \<open>easeTo\<close> and then
  the \<open>flyTo\<close>.
\<close>

theorem chapter_change_moves:
  "activeLayer (step (StepEnter
      \<lparr>data = \<lparr>id_d = ''total-methane''\<rparr>, direction = down, entry = (), index = 1\<rparr>)
      (mount False)) \<noteq> activeLayer (mount False)
   \<and> calls_of (step (StepEnter
      \<lparr>data = \<lparr>id_d = ''total-methane''\<rparr>, direction = down, entry = (), index = 1\<rparr>)
      (mount False)) = []
   \<and> activeLayer (step (StepEnter
      \<lparr>data = \<lparr>id_d = ''intro-globe''\<rparr>, direction = up, entry = (), index = 0\<rparr>)
      (run [MapLoad, StepEnter
        \<lparr>data = \<lparr>id_d = ''total-methane''\<rparr>, direction = down, entry = (), index = 1\<rparr>]
        (mount False)))
     \<noteq> activeLayer (run [MapLoad, StepEnter
        \<lparr>data = \<lparr>id_d = ''total-methane''\<rparr>, direction = down, entry = (), index = 1\<rparr>]
        (mount False))
   \<and> new_calls
       (run [MapLoad, StepEnter
         \<lparr>data = \<lparr>id_d = ''total-methane''\<rparr>, direction = down, entry = (), index = 1\<rparr>]
         (mount False))
       (step (StepEnter
         \<lparr>data = \<lparr>id_d = ''intro-globe''\<rparr>, direction = up, entry = (), index = 0\<rparr>)
         (run [MapLoad, StepEnter
           \<lparr>data = \<lparr>id_d = ''total-methane''\<rparr>, direction = down, entry = (), index = 1\<rparr>]
           (mount False)))
     = [EaseTo \<lparr>ease_center = \<lparr>lng = - 3, lat = 0\<rparr>, ease_duration = 1000,
                 ease_easing = id, ease_essential = True\<rparr>,
        FlyTo (flyTo_options (LAYERS ! 0))]"
proof -
  let ?e = "\<lparr>data = \<lparr>id_d = ''total-methane''\<rparr>, direction = down, entry = (), index = 1\<rparr>"
  let ?b = "\<lparr>data = \<lparr>id_d = ''intro-globe''\<rparr>, direction = up, entry = (), index = 0\<rparr>"
  let ?w = "run [MapLoad, StepEnter ?e] (mount False)"
  have ne: "LAYERS ! 1 \<noteq> LAYERS ! 0"
    using methane_layer(2) intro_layer(2) by auto
  have s: "step (StepEnter ?e) (mount False) = commit (mount False)
      ((mount False)\<lparr>activeLayer := LAYERS ! 1, visibleId := Some (id_l (LAYERS ! 1))\<rparr>)"
    using step_StepEnter_catalog [of "LAYERS ! 1" "mount False" ?e] methane_layer
    by (simp add: mount_eq initial_simps)
  from ne have c1: "activeLayer (step (StepEnter ?e) (mount False)) \<noteq> activeLayer (mount False)"
    unfolding s by (simp add: mount_eq initial_simps)
  have "mapRef (step (StepEnter ?e) (mount False)) = None"
    unfolding s by (simp add: mount_eq initial_simps)
  then have c2: "calls_of (step (StepEnter ?e) (mount False)) = []"
    by (rule calls_of_noMap)
  have a: "activeLayer ?w = LAYERS ! 1" "mapRef ?w \<noteq> None" "cleanup ?w = None" "mapLoaded ?w"
    and fm: "\<not> freeMode ?w" "\<not> isMobile ?w"
    by (simp_all only: left_intro StoryMap.simps option.simps simp_thms)
  have t: "step (StepEnter ?b) ?w =
      commit ?w (?w\<lparr>activeLayer := LAYERS ! 0, visibleId := Some (id_l (LAYERS ! 0))\<rparr>)"
    using step_StepEnter_catalog [OF intro_layer(1) fm, of ?b] intro_layer(2)
    by (simp del: run.simps)
  have mr: "mapRef ?w = Some \<lparr>map_zoom = 2, map_center = \<lparr>lng = 0, lat = 0\<rparr>, listeners = [],
      calls = [EaseTo \<lparr>ease_center = \<lparr>lng = - 3, lat = 0\<rparr>, ease_duration = 1000,
                       ease_easing = (\<lambda>n. n), ease_essential = True\<rparr>,
               Stop, Stop, FlyTo (flyTo_options (LAYERS ! 1))]\<rparr>"
    by (simp only: left_intro StoryMap.simps)
  have sp: "spin_calls ?w =
      [EaseTo \<lparr>ease_center = \<lparr>lng = - 3, lat = 0\<rparr>, ease_duration = 1000,
                ease_easing = (\<lambda>n. n), ease_essential = True\<rparr>]"
    unfolding spin_calls_def mr
    by (simp add: rotation_step_eq getZoom_def getCenter_def first_rotation_step)
  from ne a(1) have c3: "activeLayer (step (StepEnter ?b) ?w) \<noteq> activeLayer ?w"
    unfolding t by (simp del: run.simps)
  have "LAYERS ! 0 \<noteq> activeLayer ?w"
    using ne a(1) by (simp del: run.simps)
  from new_calls_setActive [OF this a(2), of "Some (id_l (LAYERS ! 0))"]
  have c4: "new_calls ?w (step (StepEnter ?b) ?w) =
      [EaseTo \<lparr>ease_center = \<lparr>lng = - 3, lat = 0\<rparr>, ease_duration = 1000,
                ease_easing = (\<lambda>n. n), ease_essential = True\<rparr>,
       FlyTo (flyTo_options (LAYERS ! 0))]"
    unfolding t using a methane_layer(2) intro_layer(2) sp by (simp del: run.simps)
  have "id = (\<lambda>n :: real. n)"
    by (simp add: id_def)
  with c1 c2 c3 c4 show ?thesis
    by (simp only: simp_thms)
qed

text \<open>
  C6, amended. When an event changes the active layer and the map instance exists, exactly
  one \<open>flyTo\<close> is issued, and it is the last call of the event. It goes to the longitude,
  latitude and zoom of the new layer's view, with pitch 20, bearing 0 and the easing
  \<open>t \<mapsto> 1 - (1 - t)\<^sup>3\<close>, whose slope \<open>3 (1 - t)\<^sup>2\<close> falls from 3 to 0 over the unit interval.
  The only other animated camera move of the event is the rotation step, at most one
  \<open>easeTo\<close>, that precedes the \<open>flyTo\<close> when the new layer is the intro chapter, the old one
  is not, and the map is loaded. When the instance does not exist yet, the event issues no
  call at all.
\<close>

theorem flyTo_on_change:
  assumes "activeLayer (step ev w) \<noteq> activeLayer w"
  shows "(mapRef w = None \<longrightarrow> new_calls w (step ev w) = [] \<and> calls_of (step ev w) = [])
    \<and> (mapRef w \<noteq> None \<longrightarrow>
          filter is_move (new_calls w (step ev w)) =
            (if mapLoaded w \<and> id_l (activeLayer (step ev w)) = ''intro-globe''
                \<and> id_l (activeLayer w) \<noteq> ''intro-globe''
             then spin_calls w else []) @ [FlyTo (flyTo_options (activeLayer (step ev w)))]
          \<and> filter is_FlyTo (new_calls w (step ev w)) =
              [FlyTo (flyTo_options (activeLayer (step ev w)))]
          \<and> last (new_calls w (step ev w)) = FlyTo (flyTo_options (activeLayer (step ev w))))
    \<and> length (spin_calls w) \<le> 1
    \<and> fly_center (flyTo_options l) = (longitude (view l), latitude (view l))
    \<and> fly_zoom (flyTo_options l) = zoom (view l)
    \<and> fly_pitch (flyTo_options l) = 20
    \<and> fly_bearing (flyTo_options l) = 0
    \<and> fly_easing (flyTo_options l) = (\<lambda>t. 1 - (1 - t) ^ 3)
    \<and> (\<forall>t. (fly_easing (flyTo_options l) has_real_derivative 3 * (1 - t) ^ 2) (at t))
    \<and> (\<forall>s t :: real. 0 \<le> s \<and> s \<le> t \<and> t \<le> 1 \<longrightarrow> 3 * (1 - t) ^ 2 \<le> 3 * (1 - s) ^ 2)"
proof -
  let ?l = "activeLayer (step ev w)"
  have "\<exists>v. step ev w = commit w (w\<lparr>activeLayer := ?l, visibleId := v\<rparr>)"
  proof (cases ev)
    case (StepEnter e)
    with assms have s: "step ev w = commit w (handleStepEnter e w)"
      by (simp split: if_splits)
    from handleStepEnter_shape [of w e] obtain l v
      where h: "handleStepEnter e w = w\<lparr>activeLayer := l, visibleId := v\<rparr>"
      by blast
    with s have "?l = l"
      by simp
    with s h show ?thesis
      by auto
  next
    case (SelectChapter c)
    then have s: "step ev w = commit w (selectChapter c w)"
      by simp
    from selectChapter_shape [of w c] obtain l
      where "selectChapter c w = w\<lparr>activeLayer := l\<rparr>"
      by blast
    then have h: "step ev w = commit w (w\<lparr>activeLayer := l, visibleId := visibleId w\<rparr>)"
      using s by simp
    then have l: "?l = l"
      by simp
    have "step ev w = commit w (w\<lparr>activeLayer := ?l, visibleId := visibleId w\<rparr>)"
      unfolding l by (rule h)
    then show ?thesis
      by (rule exI [where x = "visibleId w"])
  next
    case ToggleFreeMode
    with assms show ?thesis by (simp add: toggleFreeMode_def split: if_splits)
  next
    case MapCreated
    with assms show ?thesis by simp
  next
    case MapLoad
    with assms show ?thesis by simp
  next
    case (MapFire x)
    with assms show ?thesis by simp
  next
    case (CameraMoved z c)
    with assms show ?thesis by simp
  qed
  then obtain v where s: "step ev w = commit w (w\<lparr>activeLayer := ?l, visibleId := v\<rparr>)"
    by blast
  have none: "new_calls w (step ev w) = [] \<and> calls_of (step ev w) = []" if "mapRef w = None"
  proof -
    from that have "new_calls w (commit w (w\<lparr>activeLayer := ?l, visibleId := v\<rparr>)) = []"
      by (intro new_calls_noMap) simp_all
    moreover from that have "mapRef (commit w (w\<lparr>activeLayer := ?l, visibleId := v\<rparr>)) = None"
      by simp
    then have "calls_of (commit w (w\<lparr>activeLayer := ?l, visibleId := v\<rparr>)) = []"
      by (rule calls_of_noMap)
    ultimately show ?thesis
      by (simp only: s [symmetric] simp_thms)
  qed
  have some: "filter is_move (new_calls w (step ev w)) =
            (if mapLoaded w \<and> id_l ?l = ''intro-globe'' \<and> id_l (activeLayer w) \<noteq> ''intro-globe''
             then spin_calls w else []) @ [FlyTo (flyTo_options ?l)]
          \<and> filter is_FlyTo (new_calls w (step ev w)) = [FlyTo (flyTo_options ?l)]
          \<and> last (new_calls w (step ev w)) = FlyTo (flyTo_options ?l)"
    if "mapRef w \<noteq> None"
  proof -
    from new_calls_setActive [OF assms that, of v]
    have "new_calls w (step ev w) =
        (if id_l ?l \<noteq> id_l (activeLayer w)
         then (if cleanup w \<noteq> None then [Stop] else []) @
              (if mapLoaded w
               then (if id_l ?l \<noteq> ''intro-globe'' then [Stop] else spin_calls w) else [])
         else []) @ [FlyTo (flyTo_options ?l)]"
      by (simp only: s [symmetric])
    then show ?thesis
      by (auto simp: spin_calls_moves)
  qed
  have "\<forall>t. (fly_easing (flyTo_options l) has_real_derivative 3 * (1 - t) ^ 2) (at t)"
    by (simp add: flyTo_options_def cubic_ease_out_deriv)
  with none some spin_calls_length [of w] cubic_ease_out_slows show ?thesis
    by (simp add: flyTo_options_def)
qed

theorem flyTo_on_change_witness:
  "activeLayer (step (StepEnter
      \<lparr>data = \<lparr>id_d = ''total-methane''\<rparr>, direction = down, entry = (), index = 1\<rparr>)
      (ref_callback (mount False))) \<noteq> activeLayer (ref_callback (mount False))
   \<and> mapRef (ref_callback (mount False)) \<noteq> None
   \<and> filter is_move (new_calls (ref_callback (mount False)) (step (StepEnter
      \<lparr>data = \<lparr>id_d = ''total-methane''\<rparr>, direction = down, entry = (), index = 1\<rparr>)
      (ref_callback (mount False)))) =
     [FlyTo \<lparr>fly_center = (- 95, 37.5), fly_zoom = 2.8, fly_pitch = 20, fly_bearing = 0,
             fly_speed = 0.6, fly_curve = 1.4, fly_easing = (\<lambda>t. 1 - (1 - t) ^ 3)\<rparr>]
   \<and> mapRef (mount False) = None
   \<and> new_calls (mount False) (step (StepEnter
      \<lparr>data = \<lparr>id_d = ''total-methane''\<rparr>, direction = down, entry = (), index = 1\<rparr>)
      (mount False)) = []
   \<and> filter is_move (new_calls
       (run [MapLoad, StepEnter
         \<lparr>data = \<lparr>id_d = ''total-methane''\<rparr>, direction = down, entry = (), index = 1\<rparr>]
         (mount False))
       (step (StepEnter
         \<lparr>data = \<lparr>id_d = ''intro-globe''\<rparr>, direction = up, entry = (), index = 0\<rparr>)
         (run [MapLoad, StepEnter
           \<lparr>data = \<lparr>id_d = ''total-methane''\<rparr>, direction = down, entry = (), index = 1\<rparr>]
           (mount False)))) =
     [EaseTo \<lparr>ease_center = \<lparr>lng = - 3, lat = 0\<rparr>, ease_duration = 1000,
               ease_easing = (\<lambda>n. n), ease_essential = True\<rparr>,
      FlyTo \<lparr>fly_center = (0, 0), fly_zoom = 2, fly_pitch = 20, fly_bearing = 0,
             fly_speed = 0.6, fly_curve = 1.4, fly_easing = (\<lambda>t. 1 - (1 - t) ^ 3)\<rparr>]
   \<and> 3 * (1 - 1) ^ 2 \<le> (3 * (1 - 1 / 2) ^ 2 :: real)"
proof -
  let ?e = "\<lparr>data = \<lparr>id_d = ''total-methane''\<rparr>, direction = down, entry = (), index = 1\<rparr>"
  let ?b = "\<lparr>data = \<lparr>id_d = ''intro-globe''\<rparr>, direction = up, entry = (), index = 0\<rparr>"
  let ?w = "ref_callback (mount False)"
  let ?x = "run [MapLoad, StepEnter ?e] (mount False)"
  have s: "step (StepEnter ?e) ?w = commit ?w
      (?w\<lparr>activeLayer := LAYERS ! 1, visibleId := Some (id_l (LAYERS ! 1))\<rparr>)"
    using step_StepEnter_catalog [of "LAYERS ! 1" ?w ?e] methane_layer
    by (simp add: ref_callback_def mount_eq initial_simps)
  have s0: "step (StepEnter ?e) (mount False) = commit (mount False)
      ((mount False)\<lparr>activeLayer := LAYERS ! 1, visibleId := Some (id_l (LAYERS ! 1))\<rparr>)"
    using step_StepEnter_catalog [of "LAYERS ! 1" "mount False" ?e] methane_layer
    by (simp add: mount_eq initial_simps)
  have "id_l (LAYERS ! 1) \<noteq> id_l (LAYERS ! 0)"
    using methane_layer(2) intro_layer(2) by simp
  then have ne: "LAYERS ! 1 \<noteq> LAYERS ! 0"
    by auto
  then have ch: "activeLayer (step (StepEnter ?e) ?w) \<noteq> activeLayer ?w"
    unfolding s by (simp add: mount_eq initial_simps)
  from ne have ch0: "activeLayer (step (StepEnter ?e) (mount False)) \<noteq> activeLayer (mount False)"
    unfolding s0 by (simp add: mount_eq initial_simps)
  have m: "mapRef ?w \<noteq> None" "\<not> mapLoaded ?w" and m0: "mapRef (mount False) = None"
    by (simp_all add: ref_callback_def mount_eq initial_simps)
  have a: "activeLayer (step (StepEnter ?e) ?w) = LAYERS ! 1"
    unfolding s by simp
  have x: "activeLayer ?x = LAYERS ! 1" "mapRef ?x \<noteq> None" "mapLoaded ?x"
    and fm: "\<not> freeMode ?x" "\<not> isMobile ?x"
    by (simp_all only: left_intro StoryMap.simps option.simps simp_thms)
  have t: "step (StepEnter ?b) ?x =
      commit ?x (?x\<lparr>activeLayer := LAYERS ! 0, visibleId := Some (id_l (LAYERS ! 0))\<rparr>)"
    using step_StepEnter_catalog [OF intro_layer(1) fm, of ?b] intro_layer(2)
    by (simp del: run.simps)
  have b: "activeLayer (step (StepEnter ?b) ?x) = LAYERS ! 0"
    unfolding t by simp
  with ne x(1) have chx: "activeLayer (step (StepEnter ?b) ?x) \<noteq> activeLayer ?x"
    by (simp del: run.simps step.simps)
  have mr: "mapRef ?x = Some \<lparr>map_zoom = 2, map_center = \<lparr>lng = 0, lat = 0\<rparr>, listeners = [],
      calls = [EaseTo \<lparr>ease_center = \<lparr>lng = - 3, lat = 0\<rparr>, ease_duration = 1000,
                       ease_easing = (\<lambda>n. n), ease_essential = True\<rparr>,
               Stop, Stop, FlyTo (flyTo_options (LAYERS ! 1))]\<rparr>"
    by (simp only: left_intro StoryMap.simps)
  have sp: "spin_calls ?x =
      [EaseTo \<lparr>ease_center = \<lparr>lng = - 3, lat = 0\<rparr>, ease_duration = 1000,
                ease_easing = (\<lambda>n. n), ease_essential = True\<rparr>]"
    unfolding spin_calls_def mr
    by (simp add: rotation_step_eq getZoom_def getCenter_def first_rotation_step)
  have "filter is_move (new_calls ?w (step (StepEnter ?e) ?w)) =
      [FlyTo (flyTo_options (LAYERS ! 1))]"
    using flyTo_on_change [OF ch, of "LAYERS ! 1"] m a by (simp del: step.simps)
  moreover have "new_calls (mount False) (step (StepEnter ?e) (mount False)) = []"
    using flyTo_on_change [OF ch0, of "LAYERS ! 1"] m0 by (simp del: step.simps)
  moreover have "filter is_move (new_calls ?x (step (StepEnter ?b) ?x)) =
      [EaseTo \<lparr>ease_center = \<lparr>lng = - 3, lat = 0\<rparr>, ease_duration = 1000,
                ease_easing = (\<lambda>n. n), ease_essential = True\<rparr>,
       FlyTo (flyTo_options (LAYERS ! 0))]"
    using flyTo_on_change [OF chx, of "LAYERS ! 0"] x b sp methane_layer(2) intro_layer(2)
    by (simp del: run.simps step.simps)
  moreover have "3 * (1 - 1) ^ 2 \<le> (3 * (1 - 1 / 2) ^ 2 :: real)"
    using flyTo_on_change [OF ch, of "LAYERS ! 1"] by simp
  ultimately show ?thesis
    using ch m m0 methane_layer(4) intro_layer(3)
    by (simp add: flyTo_options_def del: run.simps step.simps)
qed

section \<open>Overlay and mask rendering\<close>

lemma methane_raster:
  "url (LAYERS ! 1) = Some ''https://earth.gov/ghgcenter/api/raster/searches/92ef8a307eaf0dd5c1403e04b414b712/tiles/WebMercatorQuad/{z}/{x}/{y}?assets=total-methane&rescale=0,20&colormap_name=epa-ghgi-ch4''"
  "opacity (LAYERS ! 1) = Some 0.7"
  by (simp_all add: LAYERS_def)

lemma poi_layer:
  "LAYERS ! 6 \<in> set LAYERS" "id_l (LAYERS ! 6) = ''poi-showcase''" "url (LAYERS ! 6) = None"
  using nth_LAYERS_mem [of 6] by (simp_all add: LAYERS_def)

text \<open>
  C7. In every state \<open>w\<close> the component can reach, the children of the map are exactly
  these three. The raster layer is there if and only if the active layer has a url, its
  tiles are that url, and its opacity is the layer's, or 0.6 if the layer has none. The
  country mask is there exactly if the active id is \<open>total-methane\<close> or \<open>grdi-v1\<close> and free
  mode is off; it spotlights \<open>USA\<close> for the first and \<open>IND\<close> for the second. The points of
  interest are there exactly if the active id is \<open>poi-showcase\<close>, and they are the five
  cities of the source. Two reachable states with the same active id and the same
  \<open>freeMode\<close> render the same children.

  No entry of the catalog has a url without an opacity, so the default opacity is stated
  for every state \<open>v\<close>, reachable or not, whose active layer has a non-empty url.
\<close>

theorem map_children_rendering:
  fixes evs evs' :: "'entry event list" and mobile mobile' :: bool and v :: StoryMap
  defines "w \<equiv> run evs (mount mobile)" and "w' \<equiv> run evs' (mount mobile')"
  shows "map_children w =
      [case url (activeLayer w) of
         None \<Rightarrow> None
       | Some u \<Rightarrow>
           Some (Raster [u] (case opacity (activeLayer w) of None \<Rightarrow> 0.6 | Some p \<Rightarrow> p)),
       if id_l (activeLayer w) \<in> {''total-methane'', ''grdi-v1''} \<and> \<not> freeMode w
       then Some (CountryMask
         (if id_l (activeLayer w) = ''total-methane'' then ''USA'' else ''IND''))
       else None,
       if id_l (activeLayer w) = ''poi-showcase'' then Some (POIs POI_GEOJSON) else None]
    \<and> (url (activeLayer v) = Some u \<and> u \<noteq> [] \<and> opacity (activeLayer v) = None \<longrightarrow>
          renderRaster v = Some (Raster [u] 0.6))
    \<and> (url (activeLayer v) = Some u \<and> u \<noteq> [] \<and> opacity (activeLayer v) = Some p \<longrightarrow>
          renderRaster v = Some (Raster [u] p))
    \<and> (url (activeLayer v) = None \<longrightarrow> renderRaster v = None)
    \<and> map feature_name POI_GEOJSON =
        [''New York City'', ''Delhi'', ''Cairo'', ''S'' @ [CHR 0xC3, CHR 0xA3] @ ''o Paulo'',
         ''Tokyo'']
    \<and> (id_l (activeLayer w') = id_l (activeLayer w) \<and> freeMode w' = freeMode w \<longrightarrow>
          map_children w' = map_children w)"
proof -
  have mem: "activeLayer w \<in> set LAYERS" and mem': "activeLayer w' \<in> set LAYERS"
    by (simp_all add: w_def w'_def activeLayer_reachable)
  have nonempty: "url (activeLayer w) \<noteq> Some []"
    by (rule LAYERS_url_nonempty [OF mem])
  have raster: "renderRaster w =
      (case url (activeLayer w) of
         None \<Rightarrow> None
       | Some u \<Rightarrow>
           Some (Raster [u] (case opacity (activeLayer w) of None \<Rightarrow> 0.6 | Some p \<Rightarrow> p)))"
    using nonempty by (auto simp: renderRaster_def split: option.splits)
  have mask: "renderCountryMask w =
      (if id_l (activeLayer w) \<in> {''total-methane'', ''grdi-v1''} \<and> \<not> freeMode w
       then Some (CountryMask
         (if id_l (activeLayer w) = ''total-methane'' then ''USA'' else ''IND''))
       else None)"
    by (simp add: renderCountryMask_def Let_def)
  have pois: "renderPOIs w =
      (if id_l (activeLayer w) = ''poi-showcase'' then Some (POIs POI_GEOJSON) else None)"
    by (simp add: renderPOIs_def)
  have children: "map_children w =
      [case url (activeLayer w) of
         None \<Rightarrow> None
       | Some u \<Rightarrow>
           Some (Raster [u] (case opacity (activeLayer w) of None \<Rightarrow> 0.6 | Some p \<Rightarrow> p)),
       if id_l (activeLayer w) \<in> {''total-methane'', ''grdi-v1''} \<and> \<not> freeMode w
       then Some (CountryMask
         (if id_l (activeLayer w) = ''total-methane'' then ''USA'' else ''IND''))
       else None,
       if id_l (activeLayer w) = ''poi-showcase'' then Some (POIs POI_GEOJSON) else None]"
    unfolding map_children_def raster mask pois by (rule refl)
  have default: "url (activeLayer v) = Some u \<and> u \<noteq> [] \<and> opacity (activeLayer v) = None \<longrightarrow>
          renderRaster v = Some (Raster [u] 0.6)"
    and given: "url (activeLayer v) = Some u \<and> u \<noteq> [] \<and> opacity (activeLayer v) = Some p \<longrightarrow>
          renderRaster v = Some (Raster [u] p)"
    and absent: "url (activeLayer v) = None \<longrightarrow> renderRaster v = None"
    by (simp_all add: renderRaster_def)
  have names: "map feature_name POI_GEOJSON =
        [''New York City'', ''Delhi'', ''Cairo'', ''S'' @ [CHR 0xC3, CHR 0xA3] @ ''o Paulo'',
         ''Tokyo'']"
    by (simp add: POI_GEOJSON_def)
  have pure: "id_l (activeLayer w') = id_l (activeLayer w) \<and> freeMode w' = freeMode w \<longrightarrow>
      map_children w' = map_children w"
  proof
    assume same: "id_l (activeLayer w') = id_l (activeLayer w) \<and> freeMode w' = freeMode w"
    then have "activeLayer w' = activeLayer w"
      using id_l_inject [OF mem' mem] by simp
    with same show "map_children w' = map_children w"
      by (simp add: map_children_def renderRaster_def renderCountryMask_def renderPOIs_def
          split: option.splits)
  qed
  from children default given absent names pure show ?thesis
    by (simp only: simp_thms)
qed

theorem map_children_rendering_witness:
  "map_children (run [StepEnter
      \<lparr>data = \<lparr>id_d = ''total-methane''\<rparr>, direction = down, entry = (), index = 1\<rparr>]
      (mount False))
     = [Some (Raster [''https://earth.gov/ghgcenter/api/raster/searches/92ef8a307eaf0dd5c1403e04b414b712/tiles/WebMercatorQuad/{z}/{x}/{y}?assets=total-methane&rescale=0,20&colormap_name=epa-ghgi-ch4''] 0.7),
        Some (CountryMask ''USA''), None]
   \<and> renderRaster ((mount False)\<lparr>activeLayer := (LAYERS ! 1)\<lparr>opacity := None\<rparr>\<rparr>)
     = Some (Raster [''https://earth.gov/ghgcenter/api/raster/searches/92ef8a307eaf0dd5c1403e04b414b712/tiles/WebMercatorQuad/{z}/{x}/{y}?assets=total-methane&rescale=0,20&colormap_name=epa-ghgi-ch4''] 0.6)
   \<and> map_children
       (run [ToggleFreeMode, SelectChapter ''total-methane'', ToggleFreeMode :: unit event]
         (mount False))
     = map_children (run [StepEnter
      \<lparr>data = \<lparr>id_d = ''total-methane''\<rparr>, direction = down, entry = (), index = 1\<rparr>]
      (mount False))
   \<and> map_children (run [StepEnter
      \<lparr>data = \<lparr>id_d = ''poi-showcase''\<rparr>, direction = down, entry = (), index = 6\<rparr>]
      (mount False))
     = [None, None, Some (POIs POI_GEOJSON)]"
proof -
  let ?e = "\<lparr>data = \<lparr>id_d = ''total-methane''\<rparr>, direction = down, entry = (), index = 1\<rparr>"
  let ?p = "\<lparr>data = \<lparr>id_d = ''poi-showcase''\<rparr>, direction = down, entry = (), index = 6\<rparr>"
  let ?w = "run [StepEnter ?e] (mount False)"
  let ?w' = "run [ToggleFreeMode, SelectChapter ''total-methane'', ToggleFreeMode :: unit event]
      (mount False)"
  let ?q = "run [StepEnter ?p] (mount False)"
  let ?v = "(mount False)\<lparr>activeLayer := (LAYERS ! 1)\<lparr>opacity := None\<rparr>\<rparr>"
  let ?u = "''https://earth.gov/ghgcenter/api/raster/searches/92ef8a307eaf0dd5c1403e04b414b712/tiles/WebMercatorQuad/{z}/{x}/{y}?assets=total-methane&rescale=0,20&colormap_name=epa-ghgi-ch4''"
  have a: "activeLayer ?w = LAYERS ! 1" and f: "\<not> freeMode ?w"
    using step_StepEnter_catalog [of "LAYERS ! 1" "mount False" ?e] methane_layer
    by (simp_all add: mount_eq initial_simps)
  have "step (SelectChapter ''total-methane'') (step ToggleFreeMode (mount False))
      = commit (step ToggleFreeMode (mount False))
          ((step ToggleFreeMode (mount False))\<lparr>activeLayer := LAYERS ! 1\<rparr>)"
    using step_SelectChapter_catalog [of "LAYERS ! 1" "step ToggleFreeMode (mount False)"]
      methane_layer
    by (simp add: mount_eq initial_simps toggleFreeMode_def)
  then have a': "activeLayer ?w' = LAYERS ! 1" and f': "\<not> freeMode ?w'"
    by (simp_all add: mount_eq initial_simps toggleFreeMode_def)
  have b: "activeLayer ?q = LAYERS ! 6" and g: "\<not> freeMode ?q"
    using step_StepEnter_catalog [of "LAYERS ! 6" "mount False" ?p] poi_layer
    by (simp_all add: mount_eq initial_simps)
  have v: "url (activeLayer ?v) = Some ?u" "opacity (activeLayer ?v) = None"
    using methane_raster(1) by simp_all
  note first = map_children_rendering [of "[StepEnter ?e]" False ?v ?u 0
        "[ToggleFreeMode, SelectChapter ''total-methane'', ToggleFreeMode]" False]
  note second = map_children_rendering [of "[StepEnter ?p]" False ?v ?u 0 "[]" False]
  have "map_children ?w = [Some (Raster [?u] 0.7), Some (CountryMask ''USA''), None]"
    using first a f methane_layer(2) methane_raster by (simp del: run.simps)
  moreover have "renderRaster ?v = Some (Raster [?u] 0.6)"
    using first v by (simp del: run.simps)
  moreover have "map_children ?w' = map_children ?w"
    using first a f a' f' by (simp del: run.simps)
  moreover have "map_children ?q = [None, None, Some (POIs POI_GEOJSON)]"
    using second b g poi_layer(2,3) by (simp del: run.simps)
  ultimately show ?thesis
    by (simp only: simp_thms)
qed

section \<open>Pausing and resuming the rotation\<close>



end
